theory Spec2Isabelle
  imports Complex_Main
begin

section \<open>JavaScript numbers\<close>

text \<open>
  A JavaScript \<^verbatim>\<open>number\<close> is an IEEE 754 double: a finite value \<open>m * 2 ^ e\<close> with
  \<open>\<bar>m\<bar> < 2 ^ 53\<close> and \<open>- 1074 \<le> e \<le> 971\<close>, the negative zero, an infinity, or
  \<^verbatim>\<open>NaN\<close>. \<open>Fin x\<close> is the finite double of value \<open>x\<close> (\<open>Fin 0\<close> the positive zero),
  \<open>NZero\<close> the negative zero. An arithmetic operation computes the exact result and rounds
  it to the nearest double, a tie going to the even significand, as IEEE 754 prescribes;
  the sign of a zero result, division by zero, \<^verbatim>\<open>NaN\<close> propagation and the
  comparisons that are false on \<^verbatim>\<open>NaN\<close> are written out.
\<close>

datatype jsnum = Fin rat | NZero | PInf | NInf | NaN

text \<open>\<open>2 ^ e\<close> for an integer \<open>e\<close>.\<close>

definition pow2 :: "int \<Rightarrow> rat" where
  "pow2 e = (if 0 \<le> e then 2 ^ nat e else 1 / 2 ^ nat (- e))"

text \<open>The number of binary digits of a positive integer.\<close>

function bit_length :: "int \<Rightarrow> int" where
  "bit_length n = (if n \<le> 0 then 0 else 1 + bit_length (n div 2))"
  by pat_completeness auto
termination
  by (relation "measure nat") auto

declare bit_length.simps [simp del]

text \<open>The \<open>k\<close> with \<open>2 ^ k \<le> x < 2 ^ (k + 1)\<close>, for a positive \<open>x\<close>: the difference of
  the bit lengths of numerator and denominator, or one less.\<close>

definition at_most_log2 :: "rat \<Rightarrow> int \<Rightarrow> int" where
  "at_most_log2 x k = (if pow2 k \<le> x then k else k - 1)"

definition floor_log2 :: "rat \<Rightarrow> int" where
  "floor_log2 x =
     at_most_log2 x (bit_length (fst (quotient_of x)) - bit_length (snd (quotient_of x)))"

text \<open>Rounding to the nearest integer, a tie going to the even one: \<open>f\<close> is the floor.\<close>

definition nearest_even :: "rat \<Rightarrow> int \<Rightarrow> int" where
  "nearest_even x f =
     (if x - of_int f < 1 / 2 then f
      else if 1 / 2 < x - of_int f then f + 1
      else if even f then f else f + 1)"

definition round_half_even :: "rat \<Rightarrow> int" where
  "round_half_even x = nearest_even x \<lfloor>x\<rfloor>"

text \<open>
  The double nearest to a rational. The significand \<open>m\<close> has 53 bits and the exponent
  \<open>e\<close> is at least \<open>- 1074\<close> (below \<open>2 ^ - 1022\<close> the doubles are equally spaced); what
  rounds to \<open>2 ^ 1024\<close> or more is an infinity, and a result that rounds to zero keeps its
  sign.
\<close>

definition pack :: "bool \<Rightarrow> int \<Rightarrow> int \<Rightarrow> jsnum" where
  "pack neg e m =
     (if 971 < e \<or> (e = 971 \<and> 9007199254740992 \<le> m) then (if neg then NInf else PInf)
      else if m = 0 then (if neg then NZero else Fin 0)
      else Fin ((if neg then - 1 else 1) * of_int m * pow2 e))"

definition round_at :: "bool \<Rightarrow> rat \<Rightarrow> int \<Rightarrow> jsnum" where
  "round_at neg x e = pack neg e (round_half_even (x / pow2 e))"

definition double :: "rat \<Rightarrow> jsnum" where
  "double x =
     (if x = 0 then Fin 0
      else round_at (x < 0) \<bar>x\<bar> (max (floor_log2 \<bar>x\<bar> - 52) (- 1074)))"

text \<open>The sign bit, and the value of a finite number.\<close>

fun negative :: "jsnum \<Rightarrow> bool" where
  "negative (Fin a) = (a < 0)"
| "negative NZero = True"
| "negative NInf = True"
| "negative _ = False"

fun finite_value :: "jsnum \<Rightarrow> rat" where
  "finite_value (Fin a) = a"
| "finite_value _ = 0"

fun is_finite :: "jsnum \<Rightarrow> bool" where
  "is_finite (Fin a) = True"
| "is_finite NZero = True"
| "is_finite _ = False"

definition is_zero :: "jsnum \<Rightarrow> bool" where
  "is_zero a = (a = Fin 0 \<or> a = NZero)"

definition signed_zero :: "bool \<Rightarrow> jsnum" where
  "signed_zero neg = (if neg then NZero else Fin 0)"

definition signed_infinity :: "bool \<Rightarrow> jsnum" where
  "signed_infinity neg = (if neg then NInf else PInf)"

fun js_neg :: "jsnum \<Rightarrow> jsnum" where
  "js_neg (Fin a) = (if a = 0 then NZero else Fin (- a))"
| "js_neg NZero = Fin 0"
| "js_neg PInf = NInf"
| "js_neg NInf = PInf"
| "js_neg NaN = NaN"

text \<open>\<^verbatim>\<open>a + b\<close>. An exact sum of zero is the positive zero unless both are negative zeros.\<close>

definition js_add :: "jsnum \<Rightarrow> jsnum \<Rightarrow> jsnum" where
  "js_add a b =
     (if a = NaN \<or> b = NaN then NaN
      else if a = PInf then (if b = NInf then NaN else PInf)
      else if a = NInf then (if b = PInf then NaN else NInf)
      else if b = PInf \<or> b = NInf then b
      else if a = NZero \<and> b = NZero then NZero
      else double (finite_value a + finite_value b))"

definition js_sub :: "jsnum \<Rightarrow> jsnum \<Rightarrow> jsnum" where
  "js_sub a b = js_add a (js_neg b)"

text \<open>\<^verbatim>\<open>a * b\<close>. The sign of the result is the exclusive or of the signs.\<close>

definition js_mul :: "jsnum \<Rightarrow> jsnum \<Rightarrow> jsnum" where
  "js_mul a b =
     (if a = NaN \<or> b = NaN then NaN
      else if \<not> is_finite a \<or> \<not> is_finite b then
        (if is_zero a \<or> is_zero b then NaN else signed_infinity (negative a \<noteq> negative b))
      else if is_zero a \<or> is_zero b then signed_zero (negative a \<noteq> negative b)
      else double (finite_value a * finite_value b))"

text \<open>\<^verbatim>\<open>a / b\<close>.\<close>

definition js_div :: "jsnum \<Rightarrow> jsnum \<Rightarrow> jsnum" where
  "js_div a b =
     (if a = NaN \<or> b = NaN then NaN
      else if \<not> is_finite a then
        (if \<not> is_finite b then NaN else signed_infinity (negative a \<noteq> negative b))
      else if \<not> is_finite b then signed_zero (negative a \<noteq> negative b)
      else if is_zero b then
        (if is_zero a then NaN else signed_infinity (negative a \<noteq> negative b))
      else if is_zero a then signed_zero (negative a \<noteq> negative b)
      else double (finite_value a / finite_value b))"

text \<open>\<^verbatim>\<open>a < b\<close>; false as soon as one side is \<^verbatim>\<open>NaN\<close>. The two zeros are equal.\<close>

definition js_lt :: "jsnum \<Rightarrow> jsnum \<Rightarrow> bool" where
  "js_lt a b =
     (if a = NaN \<or> b = NaN then False
      else if a = PInf \<or> b = NInf then False
      else if a = NInf \<or> b = PInf then True
      else finite_value a < finite_value b)"

definition js_gt :: "jsnum \<Rightarrow> jsnum \<Rightarrow> bool" where
  "js_gt a b = js_lt b a"

text \<open>\<^verbatim>\<open>a >= b\<close>: neither side \<^verbatim>\<open>NaN\<close> and not \<^verbatim>\<open>a < b\<close>.\<close>

definition js_ge :: "jsnum \<Rightarrow> jsnum \<Rightarrow> bool" where
  "js_ge a b = (a \<noteq> NaN \<and> b \<noteq> NaN \<and> \<not> js_lt a b)"

text \<open>Rounding towards zero, as the remainder operator needs it.\<close>

definition rat_trunc :: "rat \<Rightarrow> int" where
  "rat_trunc q = (if 0 \<le> q then \<lfloor>q\<rfloor> else \<lceil>q\<rceil>)"

text \<open>
  \<^verbatim>\<open>a % b\<close>: the remainder of the truncating division. It is a double without
  rounding, and has the sign of the dividend, also when it is zero.
\<close>

definition remainder :: "bool \<Rightarrow> rat \<Rightarrow> jsnum" where
  "remainder neg r = (if r = 0 then (if neg then NZero else Fin 0) else Fin r)"

definition js_mod :: "jsnum \<Rightarrow> jsnum \<Rightarrow> jsnum" where
  "js_mod a b =
     (if a = NaN \<or> b = NaN \<or> \<not> is_finite a \<or> is_zero b then NaN
      else if \<not> is_finite b \<or> is_zero a then a
      else remainder (negative a)
             (finite_value a - finite_value b * of_int (rat_trunc (finite_value a / finite_value b))))"

text \<open>\<^verbatim>\<open>Math.floor\<close>. The floor of a double is a double.\<close>

fun js_floor :: "jsnum \<Rightarrow> jsnum" where
  "js_floor (Fin a) = Fin (of_int \<lfloor>a\<rfloor>)"
| "js_floor x = x"

text \<open>\<^verbatim>\<open>Math.round\<close>: the nearest integer, a tie going up; the negative zero for a
  negative number that rounds to zero.\<close>

fun js_round :: "jsnum \<Rightarrow> jsnum" where
  "js_round (Fin a) = (if a < 0 \<and> \<lfloor>a + 1 / 2\<rfloor> = 0 then NZero else Fin (of_int \<lfloor>a + 1 / 2\<rfloor>))"
| "js_round x = x"

text \<open>\<^verbatim>\<open>Math.min\<close> and \<^verbatim>\<open>Math.max\<close> of two numbers: the negative zero is below the
  positive one.\<close>

definition js_min2 :: "jsnum \<Rightarrow> jsnum \<Rightarrow> jsnum" where
  "js_min2 a b =
     (if a = NaN \<or> b = NaN then NaN
      else if js_lt b a then b
      else if js_lt a b then a
      else if b = NZero then b else a)"

definition js_max2 :: "jsnum \<Rightarrow> jsnum \<Rightarrow> jsnum" where
  "js_max2 a b =
     (if a = NaN \<or> b = NaN then NaN
      else if js_lt a b then b
      else if js_lt b a then a
      else if a = NZero then b else a)"

text \<open>\<^verbatim>\<open>Math.min(...values)\<close> and \<^verbatim>\<open>Math.max(...values)\<close>.\<close>

definition js_min :: "jsnum list \<Rightarrow> jsnum" where
  "js_min vs = foldl js_min2 PInf vs"

definition js_max :: "jsnum list \<Rightarrow> jsnum" where
  "js_max vs = foldl js_max2 NInf vs"

section \<open>The clock of \<^verbatim>\<open>runtime.ts\<close>\<close>

text \<open>
  \<^verbatim>\<open>createTimeline(id, fps, clockMode, loop, duration)\<close> closes over its
  parameters and over the mutable variables \<^verbatim>\<open>lastTs\<close>, \<^verbatim>\<open>running\<close>,
  \<^verbatim>\<open>frame\<close> and \<^verbatim>\<open>time\<close>. The parameters are the record \<open>clock\<close>, the
  variables the record \<open>timeline\<close>.
\<close>

datatype clockMode = Bounded | Live

record clock =
  fps :: jsnum
  clockMode :: clockMode
  loop :: bool
  duration :: "jsnum option"

record timeline =
  lastTs :: "jsnum option"
  running :: bool
  frame :: jsnum
  time :: jsnum

text \<open>
  What one call of \<^verbatim>\<open>tick\<close> does besides updating the variables: the time handed
  to every subscriber (\<open>None\<close> when the subscribers are not called) and whether the next
  animation frame was requested.
\<close>

record tick_result =
  state :: timeline
  notified :: "jsnum option"
  rescheduled :: bool

definition tick :: "clock \<Rightarrow> jsnum \<Rightarrow> timeline \<Rightarrow> tick_result" where
  "tick c ts s =
     (if \<not> running s then \<lparr>state = s, notified = None, rescheduled = False\<rparr>
      else
        let last = (case lastTs s of None \<Rightarrow> ts | Some l \<Rightarrow> l);
            delta = js_div (js_sub ts last) (Fin 1000);
            nextTime = js_add (time s) delta;
            wrapped =
              (case duration c of
                 Some d \<Rightarrow>
                   if clockMode c = Bounded \<and> js_ge nextTime d then
                     (if loop c then
                        (if js_gt d (Fin 0) then js_mod nextTime d else Fin 0, True)
                      else (d, False))
                   else (nextTime, True)
               | None \<Rightarrow> (nextTime, True));
            time' = fst wrapped;
            running' = snd wrapped
        in \<lparr>state = \<lparr>lastTs = Some ts, running = running',
                      frame = js_floor (js_mul time' (fps c)), time = time'\<rparr>,
            notified = Some time',
            rescheduled = running'\<rparr>)"

text \<open>\<^verbatim>\<open>timeline.start()\<close> and \<^verbatim>\<open>timeline.stop()\<close>.\<close>

definition timeline_start :: "timeline \<Rightarrow> timeline" where
  "timeline_start s = (if running s then s else s\<lparr>running := True, lastTs := None\<rparr>)"

definition timeline_stop :: "timeline \<Rightarrow> timeline" where
  "timeline_stop s = s\<lparr>running := False, lastTs := None\<rparr>"

text \<open>The time a tick at timestamp \<open>ts\<close> reaches before the bound is looked at.\<close>

definition advanced :: "jsnum \<Rightarrow> timeline \<Rightarrow> jsnum" where
  "advanced ts s =
     js_add (time s)
       (js_div (js_sub ts (case lastTs s of None \<Rightarrow> ts | Some l \<Rightarrow> l)) (Fin 1000))"

section \<open>The tick handler of \<^verbatim>\<open>runtime.ts\<close>\<close>

text \<open>
  \<^verbatim>\<open>mountVmlPlayer\<close> computes three tables once (\<^verbatim>\<open>scenes\<close>, \<^verbatim>\<open>cues\<close>,
  \<^verbatim>\<open>timedByScene\<close>) and registers \<^verbatim>\<open>handleTick\<close> with the clock. An element of
  the live document is a \<open>node\<close> (the path of child indices that leads to it from the
  root); what the handler writes to the document
  is the record \<open>dom\<close>: the inline \<^verbatim>\<open>style.display\<close> of a node (the empty string
  when unset) and the three attributes it sets and removes.
\<close>

type_synonym node = "nat list"

record sceneTiming =
  scene_id :: string
  scene_start :: jsnum
  scene_end :: "jsnum option"
  scene_element :: node

record cueTiming =
  cue_id :: string
  cue_start :: jsnum
  cue_end :: "jsnum option"
  cue_element :: node

record timedElement =
  timed_element :: node
  timed_start :: jsnum
  timed_end :: jsnum

record dom =
  styleDisplay :: "node \<Rightarrow> string"
  videomlDisplay :: "node \<Rightarrow> string option"
  runtimeHidden :: "node \<Rightarrow> string option"
  runtimeActive :: "node \<Rightarrow> string option"

record mounted =
  player_fps :: jsnum
  scenes :: "sceneTiming list"
  cues :: "cueTiming list"
  timedByScene :: "string \<rightharpoonup> timedElement list"

text \<open>
  The variables \<^verbatim>\<open>handleTick\<close> closes over, the document, and the three custom
  properties (\<^verbatim>\<open>--video-time\<close>, \<^verbatim>\<open>--video-frame\<close>, \<^verbatim>\<open>--video-fps\<close>) it sets
  on the root.
\<close>

record player =
  lastActiveSceneId :: "string option"
  activeCues :: "string set"
  document :: dom
  videoVars :: "(jsnum \<times> jsnum \<times> jsnum) option"

text \<open>The events of \<^verbatim>\<open>dispatchDomEvent\<close>, with their detail: an id, the time, the frame.\<close>

datatype event =
  TimelineTick jsnum jsnum jsnum
| CueStart string jsnum jsnum
| CueEnd string jsnum jsnum
| SceneEnd string jsnum jsnum
| SceneStart string jsnum jsnum

text \<open>\<^verbatim>\<open>if (id)\<close> on a \<^verbatim>\<open>string | null\<close>: neither \<^verbatim>\<open>null\<close> nor the empty string.\<close>

definition truthy :: "string option \<Rightarrow> bool" where
  "truthy x = (case x of None \<Rightarrow> False | Some v \<Rightarrow> v \<noteq> [])"

text \<open>
  The first loop of \<^verbatim>\<open>handleTick\<close>: a scene without an end is bounded by the start of
  the scene after it; the last active scene in iteration order gives \<^verbatim>\<open>activeSceneId\<close>.
\<close>

definition scene_bound :: "sceneTiming \<Rightarrow> sceneTiming list \<Rightarrow> jsnum option" where
  "scene_bound sc rest =
     (case scene_end sc of
        Some e \<Rightarrow> Some e
      | None \<Rightarrow> (case rest of [] \<Rightarrow> None | nextScene # _ \<Rightarrow> Some (scene_start nextScene)))"

definition scene_isActive :: "jsnum \<Rightarrow> sceneTiming \<Rightarrow> sceneTiming list \<Rightarrow> bool" where
  "scene_isActive timeSec sc rest =
     (js_ge timeSec (scene_start sc)
      \<and> (case scene_bound sc rest of None \<Rightarrow> True | Some e \<Rightarrow> js_lt timeSec e))"

fun scene_loop :: "jsnum \<Rightarrow> sceneTiming list \<Rightarrow> string option \<times> dom \<Rightarrow> string option \<times> dom" where
  "scene_loop timeSec [] acc = acc"
| "scene_loop timeSec (sc # rest) (activeSceneId, d) =
     (if scene_isActive timeSec sc rest then
        scene_loop timeSec rest
          (Some (scene_id sc),
           d\<lparr>runtimeHidden := (runtimeHidden d)(scene_element sc := None),
              runtimeActive := (runtimeActive d)(scene_element sc := Some ''true''),
              styleDisplay := (styleDisplay d)(scene_element sc := ''block'')\<rparr>)
      else
        scene_loop timeSec rest
          (activeSceneId,
           d\<lparr>runtimeHidden := (runtimeHidden d)(scene_element sc := Some ''true''),
              runtimeActive := (runtimeActive d)(scene_element sc := None),
              styleDisplay := (styleDisplay d)(scene_element sc := ''none'')\<rparr>))"

text \<open>The second loop: the timed elements of the active scene.\<close>

definition isVisible :: "jsnum \<Rightarrow> timedElement \<Rightarrow> bool" where
  "isVisible timeSec item = (js_ge timeSec (timed_start item) \<and> js_lt timeSec (timed_end item))"

definition show_or_hide :: "jsnum \<Rightarrow> timedElement \<Rightarrow> dom \<Rightarrow> dom" where
  "show_or_hide timeSec item d =
     (let el = timed_element item in
      if isVisible timeSec item then
        (case videomlDisplay d el of
           Some original \<Rightarrow> d\<lparr>styleDisplay := (styleDisplay d)(el := original)\<rparr>
         | None \<Rightarrow> d\<lparr>styleDisplay := (styleDisplay d)(el := [])\<rparr>)
      else
        (let d' = (if videomlDisplay d el = None
                   then d\<lparr>videomlDisplay := (videomlDisplay d)(el := Some (styleDisplay d el))\<rparr>
                   else d)
         in d'\<lparr>styleDisplay := (styleDisplay d')(el := ''none'')\<rparr>))"

fun timed_loop :: "jsnum \<Rightarrow> timedElement list \<Rightarrow> dom \<Rightarrow> dom" where
  "timed_loop timeSec [] d = d"
| "timed_loop timeSec (item # rest) d = timed_loop timeSec rest (show_or_hide timeSec item d)"

text \<open>The third loop: cues enter and leave the set \<^verbatim>\<open>activeCues\<close>.\<close>

definition cue_isActive :: "jsnum \<Rightarrow> cueTiming \<Rightarrow> bool" where
  "cue_isActive timeSec cue =
     (js_ge timeSec (cue_start cue)
      \<and> (case cue_end cue of None \<Rightarrow> True | Some e \<Rightarrow> js_lt timeSec e))"

fun cue_loop :: "jsnum \<Rightarrow> jsnum \<Rightarrow> cueTiming list \<Rightarrow> string set \<times> event list
    \<Rightarrow> string set \<times> event list" where
  "cue_loop timeSec fr [] acc = acc"
| "cue_loop timeSec fr (cue # rest) (active, evs) =
     (let isActive = cue_isActive timeSec cue;
          wasActive = (cue_id cue \<in> active)
      in if isActive \<and> \<not> wasActive then
           cue_loop timeSec fr rest (insert (cue_id cue) active, evs @ [CueStart (cue_id cue) timeSec fr])
         else if \<not> isActive \<and> wasActive then
           cue_loop timeSec fr rest (active - {cue_id cue}, evs @ [CueEnd (cue_id cue) timeSec fr])
         else cue_loop timeSec fr rest (active, evs))"

text \<open>The scene events at the end of \<^verbatim>\<open>handleTick\<close>.\<close>

definition scene_events :: "string option \<Rightarrow> string option \<Rightarrow> jsnum \<Rightarrow> jsnum \<Rightarrow> event list" where
  "scene_events lastId activeId timeSec fr =
     (if activeId \<noteq> lastId then
        (if truthy lastId then [SceneEnd (the lastId) timeSec fr] else [])
        @ (if truthy activeId then [SceneStart (the activeId) timeSec fr] else [])
      else [])"

text \<open>
  \<^verbatim>\<open>handleTick(timeSec)\<close>: the new state and the events in the order they are
  dispatched. The callback \<^verbatim>\<open>onTimeUpdate\<close> belongs to the host and is left out.
\<close>

definition handleTick :: "mounted \<Rightarrow> jsnum \<Rightarrow> player \<Rightarrow> player \<times> event list" where
  "handleTick m timeSec p =
     (let fr = js_floor (js_mul timeSec (player_fps m));
          (activeSceneId, d1) = scene_loop timeSec (scenes m) (None, document p);
          d2 = (if truthy activeSceneId then
                  timed_loop timeSec
                    (case timedByScene m (the activeSceneId) of None \<Rightarrow> [] | Some l \<Rightarrow> l) d1
                else d1);
          (active, evs) = cue_loop timeSec fr (cues m)
                            (activeCues p, [TimelineTick fr timeSec (player_fps m)])
      in (\<lparr>lastActiveSceneId = (if activeSceneId \<noteq> lastActiveSceneId p then activeSceneId
                                  else lastActiveSceneId p),
           activeCues = active,
           document = d2,
           videoVars = Some (timeSec, fr, player_fps m)\<rparr>,
          evs @ scene_events (lastActiveSceneId p) activeSceneId timeSec fr))"

text \<open>The id that \<^verbatim>\<open>handleTick\<close> derives at a time, without the writes.\<close>

fun derived_active :: "jsnum \<Rightarrow> sceneTiming list \<Rightarrow> string option \<Rightarrow> string option" where
  "derived_active timeSec [] a = a"
| "derived_active timeSec (sc # rest) a =
     derived_active timeSec rest (if scene_isActive timeSec sc rest then Some (scene_id sc) else a)"

definition is_scene_event :: "event \<Rightarrow> bool" where
  "is_scene_event e = (case e of SceneEnd _ _ _ \<Rightarrow> True | SceneStart _ _ _ \<Rightarrow> True | _ \<Rightarrow> False)"

section \<open>Strings and \<^verbatim>\<open>Number.parseFloat\<close>\<close>

text \<open>
  A string is a list of characters, each a code unit below 256. The character classes are
  the ASCII ones of the source's regular expressions: \<^verbatim>\<open>\d\<close>, \<^verbatim>\<open>[A-Za-z_]\<close>,
  \<^verbatim>\<open>[A-Za-z0-9_-]\<close>.
\<close>

definition code_of :: "char \<Rightarrow> nat" where
  "code_of c = of_char c"

definition is_digit :: "char \<Rightarrow> bool" where
  "is_digit c = (48 \<le> code_of c \<and> code_of c \<le> 57)"

definition is_alpha :: "char \<Rightarrow> bool" where
  "is_alpha c = ((65 \<le> code_of c \<and> code_of c \<le> 90) \<or> (97 \<le> code_of c \<and> code_of c \<le> 122))"

definition is_ident_start :: "char \<Rightarrow> bool" where
  "is_ident_start c = (is_alpha c \<or> c = CHR ''_'')"

definition is_ident_char :: "char \<Rightarrow> bool" where
  "is_ident_char c = (is_alpha c \<or> is_digit c \<or> c = CHR ''_'' \<or> c = CHR ''-'')"

text \<open>White space and line terminators as \<^verbatim>\<open>trim\<close> and \<^verbatim>\<open>parseFloat\<close> skip them: tab,
  line feed, vertical tab, form feed, carriage return, space and, of the code units
  below 256, the no-break space.\<close>

definition is_space :: "char \<Rightarrow> bool" where
  "is_space c = (code_of c \<in> {9, 10, 11, 12, 13, 32, 160})"

definition trim :: "string \<Rightarrow> string" where
  "trim s = rev (dropWhile is_space (rev (dropWhile is_space s)))"

definition digits_value :: "string \<Rightarrow> int" where
  "digits_value ds = foldl (\<lambda>acc c. 10 * acc + int (code_of c - 48)) 0 ds"

text \<open>The exponent part of a decimal literal: \<^verbatim>\<open>e\<close> or \<^verbatim>\<open>E\<close>, an optional sign, and
  at least one digit; anything else is no exponent.\<close>

definition exponent_part :: "string \<Rightarrow> int" where
  "exponent_part s =
     (case s of
        [] \<Rightarrow> 0
      | c # r \<Rightarrow>
          if c = CHR ''e'' \<or> c = CHR ''E'' then
            (case r of
               [] \<Rightarrow> 0
             | d # r' \<Rightarrow>
                 if d = CHR ''-'' then - digits_value (takeWhile is_digit r')
                 else if d = CHR ''+'' then digits_value (takeWhile is_digit r')
                 else digits_value (takeWhile is_digit r))
          else 0)"

definition scale10 :: "rat \<Rightarrow> int \<Rightarrow> rat" where
  "scale10 m e = (if 0 \<le> e then m * 10 ^ nat e else m / 10 ^ nat (- e))"

text \<open>The unsigned part of \<^verbatim>\<open>parseFloat\<close>: the longest prefix that is a decimal literal,
  rounded to the nearest double.\<close>

definition unsigned_float :: "string \<Rightarrow> jsnum" where
  "unsigned_float s =
     (if take 8 s = ''Infinity'' then PInf
      else
        let ip = takeWhile is_digit s;
            r = dropWhile is_digit s;
            dot = (r \<noteq> [] \<and> hd r = CHR ''.'');
            fp = (if dot then takeWhile is_digit (tl r) else []);
            r' = (if dot then dropWhile is_digit (tl r) else r)
        in if ip = [] \<and> fp = [] then NaN
           else double (scale10 (of_int (digits_value ip) + of_int (digits_value fp) / 10 ^ length fp)
                         (exponent_part r')))"

definition parseFloat :: "string \<Rightarrow> jsnum" where
  "parseFloat s =
     (case dropWhile is_space s of
        [] \<Rightarrow> NaN
      | c # r \<Rightarrow>
          if c = CHR ''-'' then js_neg (unsigned_float r)
          else if c = CHR ''+'' then unsigned_float r
          else unsigned_float (c # r))"

section \<open>The document\<close>

text \<open>
  The tree that \<^verbatim>\<open>DOMParser\<close> hands over: an element has a tag name, attributes, child
  elements and text. The text nodes of an element are kept as one string, \<open>ownText\<close>, so
  the position of text between child elements is not represented; \<^verbatim>\<open>textContent\<close> is
  the text of the element followed by that of its children. \<^verbatim>\<open>getAttribute\<close> is
  \<^verbatim>\<open>null\<close> for a missing attribute.
\<close>

datatype element =
  Element (tagName: string) (attributes: "(string \<times> string) list") (children: "element list")
    (ownText: string)

fun textContent :: "element \<Rightarrow> string" where
  "textContent (Element tg attrs cs txt) = txt @ concat (map textContent cs)"

definition getAttr :: "element \<Rightarrow> string \<Rightarrow> string option" where
  "getAttr el name = map_of (attributes el) name"

section \<open>Errors\<close>

text \<open>
  Every \<^verbatim>\<open>throw\<close> of \<^verbatim>\<open>xml.ts\<close> is a constructor. \<open>MissingTimeReference\<close> is the
  class \<^verbatim>\<open>MissingTimeReferenceError\<close>, which the resolver's loop catches; all others
  are plain \<^verbatim>\<open>Error\<close>s (\<open>JsonSyntaxError\<close> is what \<^verbatim>\<open>JSON.parse\<close> throws).
  \<open>OutOfFuel\<close> is not an error of the program: it is the value of the parser model when
  its recursion bound is used up, and \<open>parseTimeExpression\<close> is proved never to return it.
\<close>

datatype error =
    MissingTimeReference string
  | UnexpectedCharacter char
  | UnexpectedEnd
  | ExpectedClosingParen
  | ExpectedPropertyName
  | InvalidTimeExpression
  | UnexpectedToken
  | TimelineRequiresProperty
  | UnknownIdentifier string
  | RequiresAtLeast2 string
  | ClampRequires3
  | SnapRequires2
  | SceneRequiresIdentifier
  | CueRequiresIdentifier
  | UnknownFunction string
  | UnsupportedProperty string
  | TimingRequiresStart string
  | PauseRequires
  | CueRequiresId
  | SceneRequiresId
  | LayerRequiresId
  | VmlRequiresId
  | RequiresScene
  | InvalidRoot
  | DuplicateCueId string
  | UnresolvedTimeReferences "string list"
  | DidNotConverge
  | JsonSyntaxError
  | NodeNotFound string string
  | NodeXmlWithoutElement
  | SealedScene string
  | TypeError
  | OutOfFuel

section \<open>The time expression language of \<^verbatim>\<open>xml.ts\<close>\<close>

datatype unit = F | S | MS

datatype operator = Plus | Minus | Times | Divide

datatype paren = Open | Close

datatype token =
    TNumber jsnum "unit option"
  | TIdentifier string
  | TOperator operator
  | TParen paren
  | TDot
  | TComma

datatype astNode =
    Number jsnum "unit option"
  | Identifier string
  | Binary operator astNode astNode
  | Unary operator astNode
  | Call string "astNode list"
  | Property astNode string

subsection \<open>\<^verbatim>\<open>tokenizeTime\<close>\<close>

text \<open>
  The branch of the tokenizer for a number, entered at a digit: the digits and dots that
  follow, then the unit \<^verbatim>\<open>ms\<close>, \<^verbatim>\<open>f\<close> or \<^verbatim>\<open>s\<close>. It returns the token and the
  input after it.
\<close>

definition lex_number :: "char \<Rightarrow> string \<Rightarrow> token \<times> string" where
  "lex_number ch rest =
     (let raw = ch # takeWhile (\<lambda>c. is_digit c \<or> c = CHR ''.'') rest;
          after = dropWhile (\<lambda>c. is_digit c \<or> c = CHR ''.'') rest
      in if take 2 after = ''ms'' then (TNumber (parseFloat raw) (Some MS), drop 2 after)
         else if after \<noteq> [] \<and> hd after = CHR ''f'' then (TNumber (parseFloat raw) (Some F), tl after)
         else if after \<noteq> [] \<and> hd after = CHR ''s'' then (TNumber (parseFloat raw) (Some S), tl after)
         else (TNumber (parseFloat raw) None, after))"

definition lex_identifier :: "char \<Rightarrow> string \<Rightarrow> token \<times> string" where
  "lex_identifier ch rest =
     (TIdentifier (ch # takeWhile is_ident_char rest), dropWhile is_ident_char rest)"

lemma lex_number_length: "length (snd (lex_number ch rest)) \<le> length rest"
proof -
  have "length (dropWhile (\<lambda>c. is_digit c \<or> c = CHR ''.'') rest) \<le> length rest"
    by (rule length_dropWhile_le)
  then show ?thesis
    by (auto simp: lex_number_def Let_def)
qed

lemma lex_identifier_length: "length (snd (lex_identifier ch rest)) \<le> length rest"
  by (simp add: lex_identifier_def length_dropWhile_le)

function tokenizeTime :: "string \<Rightarrow> error + token list" where
  "tokenizeTime [] = Inr []"
| "tokenizeTime (ch # rest) =
     (if ch = CHR '' '' \<or> ch = CHR 0x09 \<or> ch = CHR 0x0A then tokenizeTime rest
      else if ch = CHR ''+'' then map_sum id ((#) (TOperator Plus)) (tokenizeTime rest)
      else if ch = CHR ''-'' then map_sum id ((#) (TOperator Minus)) (tokenizeTime rest)
      else if ch = CHR ''*'' then map_sum id ((#) (TOperator Times)) (tokenizeTime rest)
      else if ch = CHR ''/'' then map_sum id ((#) (TOperator Divide)) (tokenizeTime rest)
      else if ch = CHR ''('' then map_sum id ((#) (TParen Open)) (tokenizeTime rest)
      else if ch = CHR '')'' then map_sum id ((#) (TParen Close)) (tokenizeTime rest)
      else if ch = CHR ''.'' then map_sum id ((#) TDot) (tokenizeTime rest)
      else if ch = CHR '','' then map_sum id ((#) TComma) (tokenizeTime rest)
      else if is_digit ch \<or> (ch = CHR ''.'' \<and> rest \<noteq> [] \<and> is_digit (hd rest)) then
        map_sum id ((#) (fst (lex_number ch rest))) (tokenizeTime (snd (lex_number ch rest)))
      else if is_ident_start ch then
        map_sum id ((#) (fst (lex_identifier ch rest))) (tokenizeTime (snd (lex_identifier ch rest)))
      else Inl (UnexpectedCharacter ch))"
  by pat_completeness auto
termination
proof (relation "measure length")
  show "wf (measure length)" by simp
next
  fix ch :: char and rest :: string
  show "(snd (lex_number ch rest), ch # rest) \<in> measure length"
    using lex_number_length [of ch rest] by simp
next
  fix ch :: char and rest :: string
  show "(snd (lex_identifier ch rest), ch # rest) \<in> measure length"
    using lex_identifier_length [of ch rest] by simp
qed simp_all

subsection \<open>\<^verbatim>\<open>parseTimeExpression\<close>\<close>

text \<open>
  The recursive-descent parser. The source keeps an index into the token array; the model
  returns the tokens not yet consumed. Its functions call each other on the remaining
  tokens, so the recursion is bounded by a counter that every call decrements; the
  \<^verbatim>\<open>while\<close> loops of \<^verbatim>\<open>parsePrimary\<close> (arguments), \<^verbatim>\<open>parseTerm\<close> and
  \<^verbatim>\<open>parseExpression\<close> are the functions \<open>parseArgs\<close>, \<open>parseTermLoop\<close> and
  \<open>parseExpressionLoop\<close>.
\<close>

definition peek_paren :: "paren \<Rightarrow> token list \<Rightarrow> bool" where
  "peek_paren p ts = (case ts of TParen q # _ \<Rightarrow> q = p | _ \<Rightarrow> False)"

definition peek_operator :: "operator set \<Rightarrow> token list \<Rightarrow> bool" where
  "peek_operator ops ts = (case ts of TOperator op # _ \<Rightarrow> op \<in> ops | _ \<Rightarrow> False)"

definition peek_comma :: "token list \<Rightarrow> bool" where
  "peek_comma ts = (case ts of TComma # _ \<Rightarrow> True | _ \<Rightarrow> False)"

definition operator_of :: "token list \<Rightarrow> operator" where
  "operator_of ts = (case ts of TOperator op # _ \<Rightarrow> op | _ \<Rightarrow> Plus)"

text \<open>The property chain after an identifier or a call: \<^verbatim>\<open>while (peek()?.type === "dot")\<close>.\<close>

fun parseProperties :: "astNode \<Rightarrow> token list \<Rightarrow> error + astNode \<times> token list" where
  "parseProperties node (TDot # TIdentifier prop # rest) = parseProperties (Property node prop) rest"
| "parseProperties node (TDot # rest) = Inl ExpectedPropertyName"
| "parseProperties node ts = Inr (node, ts)"

text \<open>\<^verbatim>\<open>const closing = consume(); if (!closing || ... !== ")") throw ...\<close>\<close>

definition expect_close :: "token list \<Rightarrow> error + token list" where
  "expect_close ts = (if peek_paren Close ts then Inr (tl ts) else Inl ExpectedClosingParen)"

definition finish_call :: "string \<Rightarrow> astNode list \<times> token list \<Rightarrow> error + astNode \<times> token list" where
  "finish_call name r =
     (case expect_close (snd r) of
        Inl e \<Rightarrow> Inl e
      | Inr rest \<Rightarrow> parseProperties (Call name (fst r)) rest)"

definition finish_group :: "astNode \<times> token list \<Rightarrow> error + astNode \<times> token list" where
  "finish_group r =
     (case expect_close (snd r) of
        Inl e \<Rightarrow> Inl e
      | Inr rest \<Rightarrow> Inr (fst r, rest))"

function (sequential) parseExpression :: "nat \<Rightarrow> token list \<Rightarrow> error + astNode \<times> token list"
  and parseExpressionLoop :: "nat \<Rightarrow> astNode \<Rightarrow> token list \<Rightarrow> error + astNode \<times> token list"
  and parseTerm :: "nat \<Rightarrow> token list \<Rightarrow> error + astNode \<times> token list"
  and parseTermLoop :: "nat \<Rightarrow> astNode \<Rightarrow> token list \<Rightarrow> error + astNode \<times> token list"
  and parseUnary :: "nat \<Rightarrow> token list \<Rightarrow> error + astNode \<times> token list"
  and parsePrimary :: "nat \<Rightarrow> token list \<Rightarrow> error + astNode \<times> token list"
  and parseArgs :: "nat \<Rightarrow> token list \<Rightarrow> error + astNode list \<times> token list"
where
  "parseExpression 0 ts = Inl OutOfFuel"
| "parseExpression (Suc n) ts =
     (case parseTerm n ts of
        Inl e \<Rightarrow> Inl e
      | Inr r \<Rightarrow> parseExpressionLoop n (fst r) (snd r))"
| "parseExpressionLoop 0 node ts = Inl OutOfFuel"
| "parseExpressionLoop (Suc n) node ts =
     (if peek_operator {Plus, Minus} ts then
        (case parseTerm n (tl ts) of
           Inl e \<Rightarrow> Inl e
         | Inr r \<Rightarrow> parseExpressionLoop n (Binary (operator_of ts) node (fst r)) (snd r))
      else Inr (node, ts))"
| "parseTerm 0 ts = Inl OutOfFuel"
| "parseTerm (Suc n) ts =
     (case parseUnary n ts of
        Inl e \<Rightarrow> Inl e
      | Inr r \<Rightarrow> parseTermLoop n (fst r) (snd r))"
| "parseTermLoop 0 node ts = Inl OutOfFuel"
| "parseTermLoop (Suc n) node ts =
     (if peek_operator {Times, Divide} ts then
        (case parseUnary n (tl ts) of
           Inl e \<Rightarrow> Inl e
         | Inr r \<Rightarrow> parseTermLoop n (Binary (operator_of ts) node (fst r)) (snd r))
      else Inr (node, ts))"
| "parseUnary 0 ts = Inl OutOfFuel"
| "parseUnary (Suc n) ts =
     (if peek_operator {Plus, Minus} ts then
        (case parseUnary n (tl ts) of
           Inl e \<Rightarrow> Inl e
         | Inr r \<Rightarrow> Inr (Unary (operator_of ts) (fst r), snd r))
      else parsePrimary n ts)"
| "parsePrimary 0 ts = Inl OutOfFuel"
| "parsePrimary (Suc n) [] = Inl UnexpectedEnd"
| "parsePrimary (Suc n) (TNumber v u # rest) = Inr (Number v u, rest)"
| "parsePrimary (Suc n) (TIdentifier name # rest) =
     (if peek_paren Open rest then
        (case (if peek_paren Close (tl rest) then Inr ([], tl rest) else parseArgs n (tl rest)) of
           Inl e \<Rightarrow> Inl e
         | Inr r \<Rightarrow> finish_call name r)
      else parseProperties (Identifier name) rest)"
| "parsePrimary (Suc n) (TParen p # rest) =
     (if p = Open then
        (case parseExpression n rest of
           Inl e \<Rightarrow> Inl e
         | Inr r \<Rightarrow> finish_group r)
      else Inl InvalidTimeExpression)"
| "parsePrimary (Suc n) (tok # rest) = Inl InvalidTimeExpression"
| "parseArgs 0 ts = Inl OutOfFuel"
| "parseArgs (Suc n) ts =
     (case parseExpression n ts of
        Inl e \<Rightarrow> Inl e
      | Inr r \<Rightarrow>
          if peek_comma (snd r) then
            (case parseArgs n (tl (snd r)) of
               Inl e \<Rightarrow> Inl e
             | Inr r' \<Rightarrow> Inr (fst r # fst r', snd r'))
          else Inr ([fst r], snd r))"

  by pat_completeness auto
termination
  by (relation "measure (case_sum (case_sum fst (case_sum fst fst))
                           (case_sum (case_sum fst fst) (case_sum fst fst)))") auto

definition parseTimeExpression :: "string \<Rightarrow> error + astNode" where
  "parseTimeExpression input =
     (case tokenizeTime input of
        Inl e \<Rightarrow> Inl e
      | Inr tokens \<Rightarrow>
          (case parseExpression (6 * length tokens + 4) tokens of
             Inl e \<Rightarrow> Inl e
           | Inr r \<Rightarrow> if snd r \<noteq> [] then Inl UnexpectedToken else Inr (fst r)))"

subsection \<open>\<^verbatim>\<open>evalTimeAst\<close>\<close>

text \<open>
  \<^verbatim>\<open>TimeEvalContext\<close>. The three sibling lookups take no argument, so they are values;
  \<open>None\<close> is the source's \<^verbatim>\<open>null\<close>.
\<close>

record timeEvalContext =
  ctx_fps :: jsnum
  getSceneStart :: "string \<Rightarrow> jsnum option"
  getSceneEnd :: "string \<Rightarrow> jsnum option"
  getCueStart :: "string \<Rightarrow> jsnum option"
  getPrevStart :: "jsnum option"
  getPrevEnd :: "jsnum option"
  getNextStart :: "jsnum option"

text \<open>\<^verbatim>\<open>if (value == null) throw new MissingTimeReferenceError(ref); return value\<close>\<close>

definition require :: "string \<Rightarrow> jsnum option \<Rightarrow> error + jsnum" where
  "require ref v = (case v of None \<Rightarrow> Inl (MissingTimeReference ref) | Some x \<Rightarrow> Inr x)"

definition apply_binary :: "operator \<Rightarrow> jsnum \<Rightarrow> jsnum \<Rightarrow> jsnum" where
  "apply_binary op l r =
     (case op of Plus \<Rightarrow> js_add l r | Minus \<Rightarrow> js_sub l r | Times \<Rightarrow> js_mul l r
      | Divide \<Rightarrow> js_div l r)"

text \<open>The calls whose arguments are all evaluated first, applied to the values.\<close>

definition apply_call :: "string \<Rightarrow> jsnum list \<Rightarrow> jsnum" where
  "apply_call name vs =
     (if name = ''min'' then js_min vs
      else if name = ''max'' then js_max vs
      else if name = ''clamp'' then
        (case vs of [v, lo, hi] \<Rightarrow> js_min [hi, js_max [lo, v]] | _ \<Rightarrow> NaN)
      else
        (case vs of
           [v, grid] \<Rightarrow> if is_zero grid then v else js_mul (js_round (js_div v grid)) grid
         | _ \<Rightarrow> NaN))"

text \<open>\<^verbatim>\<open>const arg = node.args[0]; if (!arg || arg.kind !== "identifier") throw ...\<close>\<close>

definition identifier_arg :: "astNode list \<Rightarrow> string option" where
  "identifier_arg args = (case args of Identifier v # _ \<Rightarrow> Some v | _ \<Rightarrow> None)"

definition eval_property :: "timeEvalContext \<Rightarrow> astNode \<Rightarrow> string \<Rightarrow> error + jsnum" where
  "eval_property ctx target prop =
     (if target = Identifier ''prev'' \<and> prop = ''start'' then require ''prev.start'' (getPrevStart ctx)
      else if target = Identifier ''prev'' \<and> prop = ''end'' then require ''prev.end'' (getPrevEnd ctx)
      else if target = Identifier ''next'' \<and> prop = ''start'' then require ''next.start'' (getNextStart ctx)
      else if target = Identifier ''timeline'' \<and> prop = ''start'' then Inr (Fin 0)
      else
        (case target of
           Call name args \<Rightarrow>
             if name = ''scene'' then
               (case identifier_arg args of
                  None \<Rightarrow> Inl SceneRequiresIdentifier
                | Some v \<Rightarrow>
                    if prop = ''start'' then
                      require (''scene('' @ v @ '').start'') (getSceneStart ctx v)
                    else if prop = ''end'' then
                      require (''scene('' @ v @ '').end'') (getSceneEnd ctx v)
                    else Inl (UnsupportedProperty prop))
             else Inl (UnsupportedProperty prop)
         | _ \<Rightarrow> Inl (UnsupportedProperty prop)))"

fun evalTimeAst :: "timeEvalContext \<Rightarrow> astNode \<Rightarrow> error + jsnum"
  and evalArgs :: "timeEvalContext \<Rightarrow> astNode list \<Rightarrow> error + jsnum list"
where
  "evalTimeAst ctx (Number v u) =
     Inr (case u of None \<Rightarrow> v | Some F \<Rightarrow> js_div v (ctx_fps ctx) | Some MS \<Rightarrow> js_div v (Fin 1000)
          | Some S \<Rightarrow> v)"
| "evalTimeAst ctx (Identifier v) =
     (if v = ''timeline'' then Inl TimelineRequiresProperty else Inl (UnknownIdentifier v))"
| "evalTimeAst ctx (Unary op v) =
     (case evalTimeAst ctx v of
        Inl e \<Rightarrow> Inl e
      | Inr val \<Rightarrow> Inr (if op = Minus then js_neg val else val))"
| "evalTimeAst ctx (Binary op l r) =
     (case evalTimeAst ctx l of
        Inl e \<Rightarrow> Inl e
      | Inr left \<Rightarrow>
          (case evalTimeAst ctx r of
             Inl e \<Rightarrow> Inl e
           | Inr right \<Rightarrow> Inr (apply_binary op left right)))"
| "evalTimeAst ctx (Call name args) =
     (if name = ''min'' \<or> name = ''max'' then
        (if length args < 2 then Inl (RequiresAtLeast2 name)
         else map_sum id (apply_call name) (evalArgs ctx args))
      else if name = ''clamp'' then
        (if length args \<noteq> 3 then Inl ClampRequires3
         else map_sum id (apply_call name) (evalArgs ctx args))
      else if name = ''snap'' then
        (if length args \<noteq> 2 then Inl SnapRequires2
         else map_sum id (apply_call name) (evalArgs ctx args))
      else if name = ''scene'' then
        (case identifier_arg args of
           None \<Rightarrow> Inl SceneRequiresIdentifier
         | Some v \<Rightarrow> require (''scene('' @ v @ '')'') (getSceneStart ctx v))
      else if name = ''cue'' then
        (case identifier_arg args of
           None \<Rightarrow> Inl CueRequiresIdentifier
         | Some v \<Rightarrow> require (''cue('' @ v @ '')'') (getCueStart ctx v))
      else Inl (UnknownFunction name))"
| "evalTimeAst ctx (Property target prop) = eval_property ctx target prop"
| "evalArgs ctx [] = Inr []"
| "evalArgs ctx (a # as) =
     (case evalTimeAst ctx a of
        Inl e \<Rightarrow> Inl e
      | Inr v \<Rightarrow> map_sum id ((#) v) (evalArgs ctx as))"

definition parseTimeValue :: "timeEvalContext \<Rightarrow> string \<Rightarrow> error + jsnum" where
  "parseTimeValue ctx value =
     (case parseTimeExpression (trim value) of
        Inl e \<Rightarrow> Inl e
      | Inr expr \<Rightarrow> evalTimeAst ctx expr)"

text \<open>\<^verbatim>\<open>raw ? parseTimeValue(raw, ctx) : undefined\<close>, with the truthiness of a string.\<close>

definition optTimeValue :: "timeEvalContext \<Rightarrow> string option \<Rightarrow> error + jsnum option" where
  "optTimeValue ctx raw =
     (case raw of
        None \<Rightarrow> Inr None
      | Some v \<Rightarrow> if v = [] then Inr None else map_sum id Some (parseTimeValue ctx v))"

section \<open>Timing of elements in \<^verbatim>\<open>xml.ts\<close>\<close>

text \<open>
  \<^verbatim>\<open>parseNumber\<close> tests its argument against the regular expression literal
  \<^verbatim>\<open>/^[-+]?\\d+(\\.\\d+)?$/\<close>. In a literal, \<^verbatim>\<open>\\\<close> is an escaped backslash: the
  expression accepts an optional sign, a backslash, one or more letters \<^verbatim>\<open>d\<close>, and
  optionally a backslash, one character that is no line break, a backslash and one or more
  letters \<^verbatim>\<open>d\<close>. A string of digits does not match.
\<close>

definition backslash :: char where
  "backslash = CHR 0x5C"

definition all_d :: "string \<Rightarrow> bool" where
  "all_d s = (s \<noteq> [] \<and> (\<forall>c \<in> set s. c = CHR ''d''))"

definition number_pattern :: "string \<Rightarrow> bool" where
  "number_pattern value =
     (let v = (if value \<noteq> [] \<and> (hd value = CHR ''-'' \<or> hd value = CHR ''+'') then tl value
               else value)
      in case v of
           [] \<Rightarrow> False
         | b # r \<Rightarrow>
             b = backslash \<and> takeWhile (\<lambda>c. c = CHR ''d'') r \<noteq> []
             \<and> (case dropWhile (\<lambda>c. c = CHR ''d'') r of
                   [] \<Rightarrow> True
                 | b1 # r1 \<Rightarrow>
                     b1 = backslash
                     \<and> (case r1 of
                           [] \<Rightarrow> False
                         | c # r2 \<Rightarrow>
                             c \<noteq> CHR 0x0A \<and> c \<noteq> CHR 0x0D
                             \<and> (case r2 of [] \<Rightarrow> False | b2 # r3 \<Rightarrow> b2 = backslash \<and> all_d r3))))"

definition parseNumber :: "string option \<Rightarrow> jsnum option" where
  "parseNumber value =
     (case value of
        None \<Rightarrow> None
      | Some v \<Rightarrow>
          if v = [] then None
          else if \<not> number_pattern v then None
          else Some (parseFloat v))"

record timing =
  startSec :: "jsnum option"
  endSec :: "jsnum option"

definition truthyAttr :: "element \<Rightarrow> string \<Rightarrow> bool" where
  "truthyAttr el name = truthy (getAttr el name)"

definition parseTiming :: "timeEvalContext \<Rightarrow> element \<Rightarrow> error + timing option" where
  "parseTiming ctx el =
     (let startRaw = getAttr el ''start'';
          endRaw = getAttr el ''end'';
          durationRaw = getAttr el ''duration''
      in if \<not> truthy startRaw \<and> \<not> truthy endRaw \<and> \<not> truthy durationRaw then Inr None
         else
           (case (if truthy startRaw then optTimeValue ctx startRaw
                  else Inr (if truthy durationRaw then Some (Fin 0) else None)) of
              Inl e \<Rightarrow> Inl e
            | Inr start \<Rightarrow>
                (case optTimeValue ctx endRaw of
                   Inl e \<Rightarrow> Inl e
                 | Inr end' \<Rightarrow>
                     (case start of
                        Some s \<Rightarrow>
                          if truthy durationRaw \<and> end' = None then
                            (case optTimeValue ctx durationRaw of
                               Inl e \<Rightarrow> Inl e
                             | Inr dur \<Rightarrow>
                                 Inr (Some \<lparr>startSec = Some s,
                                            endSec = map_option (js_add s) dur\<rparr>))
                          else Inr (Some \<lparr>startSec = start, endSec = end'\<rparr>)
                      | None \<Rightarrow> Inr (Some \<lparr>startSec = start, endSec = end'\<rparr>)))))"

text \<open>\<^verbatim>\<open>parseTimeRange\<close>, the timing of a cue: a start and possibly an end.\<close>

definition parseTimeRange :: "timeEvalContext \<Rightarrow> element \<Rightarrow> string
    \<Rightarrow> error + (jsnum \<times> jsnum option) option" where
  "parseTimeRange ctx el label =
     (let startRaw = getAttr el ''start'';
          endRaw = getAttr el ''end'';
          durationRaw = getAttr el ''duration''
      in if \<not> truthy startRaw \<and> \<not> truthy endRaw \<and> \<not> truthy durationRaw then Inr None
         else if \<not> truthy startRaw \<and> (truthy endRaw \<or> truthy durationRaw) then
           Inl (TimingRequiresStart label)
         else
           (case optTimeValue ctx startRaw of
              Inl e \<Rightarrow> Inl e
            | Inr start \<Rightarrow>
                (case optTimeValue ctx endRaw of
                   Inl e \<Rightarrow> Inl e
                 | Inr endExplicit \<Rightarrow>
                     (case start of
                        Some s \<Rightarrow>
                          if truthy durationRaw \<and> endExplicit = None then
                            (case optTimeValue ctx durationRaw of
                               Inl e \<Rightarrow> Inl e
                             | Inr dur \<Rightarrow> Inr (Some (s, map_option (js_add s) dur)))
                          else Inr (Some (s, endExplicit))
                      | None \<Rightarrow> Inr None))))"

text \<open>\<^verbatim>\<open>parseContainerTiming\<close>, for \<^verbatim>\<open>sequence\<close> and \<^verbatim>\<open>stack\<close>.\<close>

definition parseContainerTiming :: "timeEvalContext \<Rightarrow> element \<Rightarrow> error + jsnum \<times> jsnum option" where
  "parseContainerTiming ctx el =
     (let startRaw = getAttr el ''start'';
          endRaw = getAttr el ''end'';
          durationRaw = getAttr el ''duration''
      in if \<not> truthy startRaw \<and> \<not> truthy endRaw \<and> \<not> truthy durationRaw then Inr (Fin 0, None)
         else
           (case optTimeValue ctx startRaw of
              Inl e \<Rightarrow> Inl e
            | Inr startOpt \<Rightarrow>
                (let start = (case startOpt of None \<Rightarrow> Fin 0 | Some s \<Rightarrow> s) in
                 case optTimeValue ctx endRaw of
                   Inl e \<Rightarrow> Inl e
                 | Inr end' \<Rightarrow>
                     if truthy durationRaw \<and> end' = None then
                       (case optTimeValue ctx durationRaw of
                          Inl e \<Rightarrow> Inl e
                        | Inr dur \<Rightarrow> Inr (start, map_option (js_add start) dur))
                     else Inr (start, end'))))"

datatype pause =
    FixedPause jsnum
  | GaussianPause jsnum jsnum "jsnum option" "jsnum option"

definition parsePause :: "timeEvalContext \<Rightarrow> element \<Rightarrow> error + pause" where
  "parsePause ctx el =
     (if truthyAttr el ''seconds'' then
        (case optTimeValue ctx (getAttr el ''seconds'') of
           Inl e \<Rightarrow> Inl e
         | Inr s \<Rightarrow> Inr (FixedPause (case s of Some v \<Rightarrow> v | None \<Rightarrow> NaN)))
      else if truthyAttr el ''mean'' \<and> truthyAttr el ''std'' then
        (case optTimeValue ctx (getAttr el ''mean'') of
           Inl e \<Rightarrow> Inl e
         | Inr mean \<Rightarrow>
             (case optTimeValue ctx (getAttr el ''std'') of
                Inl e \<Rightarrow> Inl e
              | Inr std \<Rightarrow>
                  (case optTimeValue ctx (getAttr el ''min'') of
                     Inl e \<Rightarrow> Inl e
                   | Inr mn \<Rightarrow>
                       (case optTimeValue ctx (getAttr el ''max'') of
                          Inl e \<Rightarrow> Inl e
                        | Inr mx \<Rightarrow>
                            Inr (GaussianPause (case mean of Some v \<Rightarrow> v | None \<Rightarrow> NaN)
                                   (case std of Some v \<Rightarrow> v | None \<Rightarrow> NaN) mn mx)))))
      else Inl PauseRequires)"

section \<open>Cues, components and containers\<close>

text \<open>
  The records below keep the id and the timing of what the resolver builds. The other
  fields of the source's objects (titles, labels, props, styles, markup hints, visibility,
  z-index) take no part in timing and are left out; the calls of \<^verbatim>\<open>JSON.parse\<close> that
  compute some of them are kept, since they throw on malformed text. \<^verbatim>\<open>JSON.parse\<close> is
  the host's: the model takes the predicate \<open>json\<close>, true of the texts it accepts.
\<close>

datatype segment =
    TextSegment string "jsnum option"
  | PauseSegment pause

record cue =
  parsed_id :: string
  parsed_time :: "(jsnum \<times> jsnum option) option"
  parsed_segments :: "segment list"
  parsed_bullets :: "string list"

record component =
  comp_id :: string
  comp_timing :: "timing option"

record layer =
  layer_id :: string
  layer_timing :: "timing option"
  layer_components :: "component list"

datatype item = CueItem cue | PauseItem pause

datatype flow = Sequence | Stack

text \<open>
  \<^verbatim>\<open>text.replace(/\\s+/g, " ")\<close>: the pattern of this literal is a backslash followed
  by one or more letters \<^verbatim>\<open>s\<close>.
\<close>

function replace_backslash_s :: "string \<Rightarrow> string" where
  "replace_backslash_s [] = []"
| "replace_backslash_s (c # r) =
     (if c = backslash \<and> r \<noteq> [] \<and> hd r = CHR ''s''
      then CHR '' '' # replace_backslash_s (dropWhile (\<lambda>x. x = CHR ''s'') r)
      else c # replace_backslash_s r)"
  by pat_completeness auto
termination
proof (relation "measure length")
  fix c :: char and r :: string
  show "(dropWhile (\<lambda>x. x = CHR ''s'') r, c # r) \<in> measure length"
    using length_dropWhile_le [of "\<lambda>x. x = CHR ''s''" r] by simp
qed simp_all

text \<open>The decimal digits of an index, for \<^verbatim>\<open>`${el.tagName}-${componentIndex}`\<close>.\<close>

function show_nat :: "nat \<Rightarrow> string" where
  "show_nat n = (if n < 10 then [char_of (48 + n)] else show_nat (n div 10) @ [char_of (48 + n mod 10)])"
  by pat_completeness auto
termination
  by (relation "measure id") auto

declare show_nat.simps [simp del]

text \<open>The loop of \<^verbatim>\<open>parseCue\<close> over the children of a cue.\<close>

fun cue_children :: "timeEvalContext \<Rightarrow> element list \<Rightarrow> segment list \<times> string list
    \<Rightarrow> error + segment list \<times> string list" where
  "cue_children ctx [] acc = Inr acc"
| "cue_children ctx (child # rest) (segs, buls) =
     (if tagName child = ''voice'' then
        (let text = trim (replace_backslash_s (textContent child)) in
         if text = [] then cue_children ctx rest (segs, buls)
         else
           (case optTimeValue ctx (getAttr child ''trim-end'') of
              Inl e \<Rightarrow> Inl e
            | Inr trimEnd \<Rightarrow> cue_children ctx rest (segs @ [TextSegment text trimEnd], buls)))
      else if tagName child = ''pause'' then
        (case parsePause ctx child of
           Inl e \<Rightarrow> Inl e
         | Inr p \<Rightarrow> cue_children ctx rest (segs @ [PauseSegment p], buls))
      else if tagName child = ''bullet'' then
        (let bullet = trim (replace_backslash_s (textContent child)) in
         cue_children ctx rest (segs, if bullet \<noteq> [] then buls @ [bullet] else buls))
      else cue_children ctx rest (segs, buls))"

definition parseCue :: "timeEvalContext \<Rightarrow> element \<Rightarrow> error + cue" where
  "parseCue ctx el =
     (case getAttr el ''id'' of
        None \<Rightarrow> Inl CueRequiresId
      | Some i \<Rightarrow>
          if i = [] then Inl CueRequiresId
          else
            (case parseTimeRange ctx el i of
               Inl e \<Rightarrow> Inl e
             | Inr tr \<Rightarrow>
                 (case cue_children ctx (children el) ([], []) of
                    Inl e \<Rightarrow> Inl e
                  | Inr r \<Rightarrow>
                      Inr \<lparr>parsed_id = i, parsed_time = tr, parsed_segments = fst r,
                           parsed_bullets = snd r\<rparr>)))"

text \<open>\<^verbatim>\<open>raw ? JSON.parse(raw) : undefined\<close>: whether the evaluation throws.\<close>

definition json_throws :: "(string \<Rightarrow> bool) \<Rightarrow> element \<Rightarrow> string \<Rightarrow> bool" where
  "json_throws json el name =
     (case getAttr el name of None \<Rightarrow> False | Some raw \<Rightarrow> raw \<noteq> [] \<and> \<not> json raw)"

definition parseComponentElement :: "(string \<Rightarrow> bool) \<Rightarrow> timeEvalContext \<Rightarrow> element \<Rightarrow> nat
    \<Rightarrow> timing option \<Rightarrow> error + component" where
  "parseComponentElement json ctx el componentIndex timingOverride =
     (if json_throws json el ''props'' then Inl JsonSyntaxError
      else
        (case (case timingOverride of Some t \<Rightarrow> Inr (Some t) | None \<Rightarrow> parseTiming ctx el) of
           Inl e \<Rightarrow> Inl e
         | Inr tm \<Rightarrow>
             if json_throws json el ''styles'' then Inl JsonSyntaxError
             else if json_throws json el ''markup'' then Inl JsonSyntaxError
             else
               Inr \<lparr>comp_id = (case getAttr el ''id'' of
                                 Some i \<Rightarrow> i
                               | None \<Rightarrow> tagName el @ ''-'' @ show_nat componentIndex),
                    comp_timing = tm\<rparr>))"

definition skipped_tags :: "string set" where
  "skipped_tags = {''scene'', ''cue'', ''layer'', ''pause'', ''voice'', ''bullet'', ''voiceover''}"

definition is_container :: "element \<Rightarrow> bool" where
  "is_container el = (tagName el = ''sequence'' \<or> tagName el = ''stack'')"

definition flow_of :: "element \<Rightarrow> flow" where
  "flow_of el = (if tagName el = ''sequence'' then Sequence else Stack)"

text \<open>\<^verbatim>\<open>maxEnd = maxEnd == null ? e : Math.max(maxEnd, e)\<close>\<close>

definition raise_maxEnd :: "jsnum option \<Rightarrow> jsnum \<Rightarrow> jsnum option" where
  "raise_maxEnd maxEnd e = (case maxEnd of None \<Rightarrow> Some e | Some m \<Rightarrow> Some (js_max [m, e]))"

text \<open>
  A child of a container that is no container itself: its offsets, its window in the
  flow, and the component built with that window as \<^verbatim>\<open>timingOverride\<close>. The result is
  the component and the end of the window.
\<close>

definition container_leaf :: "(string \<Rightarrow> bool) \<Rightarrow> timeEvalContext \<Rightarrow> jsnum \<Rightarrow> flow \<Rightarrow> element
    \<Rightarrow> nat \<Rightarrow> jsnum \<Rightarrow> error + component \<times> jsnum option" where
  "container_leaf json ctx containerStart fl child componentIndex cursor =
     (case optTimeValue ctx (getAttr child ''start'') of
        Inl e \<Rightarrow> Inl e
      | Inr startOffset \<Rightarrow>
          (case optTimeValue ctx (getAttr child ''end'') of
             Inl e \<Rightarrow> Inl e
           | Inr endOffset \<Rightarrow>
               (case optTimeValue ctx (getAttr child ''duration'') of
                  Inl e \<Rightarrow> Inl e
                | Inr durationValue \<Rightarrow>
                    (let baseStart = (if fl = Sequence then cursor else containerStart);
                         childStart = js_add baseStart
                                        (case startOffset of None \<Rightarrow> Fin 0 | Some s \<Rightarrow> s);
                         childEnd =
                           (case durationValue of
                              Some d \<Rightarrow> Some (js_add childStart d)
                            | None \<Rightarrow>
                                (case endOffset of
                                   Some e \<Rightarrow> Some (js_add containerStart e)
                                 | None \<Rightarrow>
                                     if fl = Sequence then Some (js_add childStart (Fin 1))
                                     else None))
                     in case parseComponentElement json ctx child componentIndex
                               (Some \<lparr>startSec = Some childStart, endSec = childEnd\<rparr>) of
                          Inl e \<Rightarrow> Inl e
                        | Inr c \<Rightarrow> Inr (c, childEnd)))))"

text \<open>
  \<^verbatim>\<open>parseContainerChildren\<close>. The loop over the children carries the components found,
  the component index, the cursor and \<^verbatim>\<open>maxEnd\<close>.
\<close>

type_synonym container_acc = "component list \<times> nat \<times> jsnum \<times> jsnum option"

function (sequential) parseContainerChildren :: "(string \<Rightarrow> bool) \<Rightarrow> timeEvalContext \<Rightarrow> element
    \<Rightarrow> nat \<Rightarrow> jsnum \<Rightarrow> flow \<Rightarrow> error + component list \<times> nat \<times> jsnum option"
  and container_loop :: "(string \<Rightarrow> bool) \<Rightarrow> timeEvalContext \<Rightarrow> element list
    \<Rightarrow> jsnum \<Rightarrow> flow \<Rightarrow> container_acc \<Rightarrow> error + container_acc"
where
  "parseContainerChildren json ctx (Element tg attrs cs txt) componentIndex containerStart fl =
     (if json_throws json (Element tg attrs cs txt) ''styles'' then Inl JsonSyntaxError
      else if json_throws json (Element tg attrs cs txt) ''markup'' then Inl JsonSyntaxError
      else
        (case container_loop json ctx cs containerStart fl
                ([], componentIndex, containerStart, None) of
           Inl e \<Rightarrow> Inl e
         | Inr (comps, idx, cursor, maxEnd) \<Rightarrow>
             Inr (comps, idx, if fl = Sequence then Some cursor else maxEnd)))"
| "container_loop json ctx [] containerStart fl acc = Inr acc"
| "container_loop json ctx (child # rest) containerStart fl (comps, idx, cursor, maxEnd) =
     (if tagName child \<in> skipped_tags then
        container_loop json ctx rest containerStart fl (comps, idx, cursor, maxEnd)
      else if is_container child then
        (case parseContainerTiming ctx child of
           Inl e \<Rightarrow> Inl e
         | Inr childTiming \<Rightarrow>
             (case parseContainerChildren json ctx child idx
                     (if fl = Sequence then cursor else js_add containerStart (fst childTiming))
                     (flow_of child) of
                Inl e \<Rightarrow> Inl e
              | Inr (ncomps, nidx, nmax) \<Rightarrow>
                  container_loop json ctx rest containerStart fl
                    (comps @ ncomps, nidx,
                     (if fl = Sequence then (case nmax of Some m \<Rightarrow> m | None \<Rightarrow> cursor) else cursor),
                     (if fl = Sequence then maxEnd
                      else (case nmax of Some m \<Rightarrow> raise_maxEnd maxEnd m | None \<Rightarrow> maxEnd)))))
      else
        (case container_leaf json ctx containerStart fl child idx cursor of
           Inl e \<Rightarrow> Inl e
         | Inr (c, childEnd) \<Rightarrow>
             container_loop json ctx rest containerStart fl
               (comps @ [c], idx + 1,
                (if fl = Sequence then (case childEnd of Some e \<Rightarrow> e | None \<Rightarrow> cursor) else cursor),
                (if fl = Sequence then maxEnd
                 else (case childEnd of Some e \<Rightarrow> raise_maxEnd maxEnd e | None \<Rightarrow> maxEnd)))))"
  by pat_completeness auto
termination
  by (relation "measure (case_sum (\<lambda>(json, ctx, el, r). size el)
                           (\<lambda>(json, ctx, els, r). size_list size els))") auto

text \<open>
  A child that is no cue, pause or layer (and any child of a layer that is not skipped):
  a container contributes the components of its children, anything else is one
  component.
\<close>

definition container_or_component :: "(string \<Rightarrow> bool) \<Rightarrow> timeEvalContext \<Rightarrow> element \<Rightarrow> nat
    \<Rightarrow> error + component list \<times> nat" where
  "container_or_component json ctx child componentIndex =
     (if is_container child then
        (case parseContainerTiming ctx child of
           Inl e \<Rightarrow> Inl e
         | Inr containerTiming \<Rightarrow>
             (case parseContainerChildren json ctx child componentIndex (fst containerTiming)
                     (flow_of child) of
                Inl e \<Rightarrow> Inl e
              | Inr parsed \<Rightarrow> Inr (fst parsed, fst (snd parsed))))
      else
        (case parseComponentElement json ctx child componentIndex None of
           Inl e \<Rightarrow> Inl e
         | Inr c \<Rightarrow> Inr ([c], componentIndex + 1)))"

fun layer_children :: "(string \<Rightarrow> bool) \<Rightarrow> timeEvalContext \<Rightarrow> element list
    \<Rightarrow> component list \<times> nat \<Rightarrow> error + component list \<times> nat" where
  "layer_children json ctx [] acc = Inr acc"
| "layer_children json ctx (layerChild # rest) (comps, idx) =
     (if tagName layerChild \<in> skipped_tags then layer_children json ctx rest (comps, idx)
      else
        (case container_or_component json ctx layerChild idx of
           Inl e \<Rightarrow> Inl e
         | Inr r \<Rightarrow> layer_children json ctx rest (comps @ fst r, snd r)))"

definition parseLayer :: "(string \<Rightarrow> bool) \<Rightarrow> timeEvalContext \<Rightarrow> element \<Rightarrow> error + layer" where
  "parseLayer json ctx child =
     (if \<not> truthyAttr child ''id'' then Inl LayerRequiresId
      else
        (case parseTiming ctx child of
           Inl e \<Rightarrow> Inl e
         | Inr layerTiming \<Rightarrow>
             (case layer_children json ctx (children child) ([], 0) of
                Inl e \<Rightarrow> Inl e
              | Inr r \<Rightarrow>
                  if json_throws json child ''styles'' then Inl JsonSyntaxError
                  else if json_throws json child ''markup'' then Inl JsonSyntaxError
                  else
                    Inr \<lparr>layer_id = the (getAttr child ''id''), layer_timing = layerTiming,
                         layer_components = fst r\<rparr>)))"

section \<open>The resolver: \<^verbatim>\<open>loadVideoFileFromXml\<close>\<close>

record sceneData =
  data_id :: string
  data_time :: "timing option"
  data_items :: "item list"
  data_layers :: "layer list"
  data_components :: "component list"

text \<open>
  The variables of the resolver that the passes update: the array \<^verbatim>\<open>scenes\<close> (here
  \<open>resolved\<close>, a map from the index of a scene element), the set \<^verbatim>\<open>cueIds\<close>, the three
  indices and the set \<^verbatim>\<open>pending\<close>, whose iteration order is the order of insertion,
  that is ascending.
\<close>

record resolution =
  resolved :: "nat \<rightharpoonup> sceneData"
  cueIds :: "string set"
  sceneStartIndex :: "string \<rightharpoonup> jsnum"
  sceneEndIndex :: "string \<rightharpoonup> jsnum"
  cueStartIndex :: "string \<rightharpoonup> jsnum"
  pending :: "nat list"

text \<open>
  The context built for the scene at \<open>index\<close>. Its closures read the indices when they
  are called, so the context is a function of the current state.
\<close>

definition scene_context :: "jsnum \<Rightarrow> element list \<Rightarrow> nat \<Rightarrow> resolution \<Rightarrow> timeEvalContext" where
  "scene_context fps' sceneElements index st =
     (let prev = (if 0 < index then resolved st (index - 1) else None);
          next = (if index + 1 < length sceneElements then Some (sceneElements ! (index + 1))
                  else None)
      in \<lparr>ctx_fps = fps',
          getSceneStart = sceneStartIndex st,
          getSceneEnd = sceneEndIndex st,
          getCueStart = cueStartIndex st,
          getPrevStart = (case prev of None \<Rightarrow> None | Some p \<Rightarrow> sceneStartIndex st (data_id p)),
          getPrevEnd = (case prev of None \<Rightarrow> None | Some p \<Rightarrow> sceneEndIndex st (data_id p)),
          getNextStart =
            (case next of
               None \<Rightarrow> None
             | Some nx \<Rightarrow>
                 (case getAttr nx ''id'' of
                    None \<Rightarrow> None
                  | Some nextId \<Rightarrow> if nextId = [] then None else sceneStartIndex st nextId))\<rparr>)"

text \<open>
  The loop over the children of a scene. A cue is parsed, its id is looked up in
  \<^verbatim>\<open>cueIds\<close> and added, and its start is indexed; these updates stay when a later
  child throws, so the loop returns the state together with the result.
\<close>

type_synonym scene_acc = "item list \<times> layer list \<times> component list \<times> nat"

fun scene_children :: "(string \<Rightarrow> bool) \<Rightarrow> (resolution \<Rightarrow> timeEvalContext) \<Rightarrow> element list
    \<Rightarrow> resolution \<Rightarrow> scene_acc \<Rightarrow> resolution \<times> (error + scene_acc)" where
  "scene_children json ctx [] st acc = (st, Inr acc)"
| "scene_children json ctx (child # rest) st (items, layers, components, componentIndex) =
     (if tagName child = ''cue'' then
        (case parseCue (ctx st) child of
           Inl e \<Rightarrow> (st, Inl e)
         | Inr c \<Rightarrow>
             if parsed_id c \<in> cueIds st then (st, Inl (DuplicateCueId (parsed_id c)))
             else
               scene_children json ctx rest
                 (st\<lparr>cueIds := insert (parsed_id c) (cueIds st),
                     cueStartIndex :=
                       (case parsed_time c of
                          None \<Rightarrow> cueStartIndex st
                        | Some tr \<Rightarrow> (cueStartIndex st)(parsed_id c \<mapsto> fst tr))\<rparr>)
                 (items @ [CueItem c], layers, components, componentIndex))
      else if tagName child = ''pause'' then
        (case parsePause (ctx st) child of
           Inl e \<Rightarrow> (st, Inl e)
         | Inr p \<Rightarrow>
             scene_children json ctx rest st (items @ [PauseItem p], layers, components, componentIndex))
      else if tagName child = ''layer'' then
        (case parseLayer json (ctx st) child of
           Inl e \<Rightarrow> (st, Inl e)
         | Inr l \<Rightarrow>
             scene_children json ctx rest st (items, layers @ [l], components, componentIndex))
      else
        (case container_or_component json (ctx st) child componentIndex of
           Inl e \<Rightarrow> (st, Inl e)
         | Inr r \<Rightarrow>
             scene_children json ctx rest st (items, layers, components @ fst r, snd r)))"

text \<open>
  The body of the \<^verbatim>\<open>try\<close> up to the construction of \<^verbatim>\<open>sceneData\<close>. An index
  outside the array of scene elements would make \<^verbatim>\<open>getAttr\<close> throw a
  \<^verbatim>\<open>TypeError\<close>; no such index is ever pending.
\<close>

definition try_scene :: "(string \<Rightarrow> bool) \<Rightarrow> jsnum \<Rightarrow> element list \<Rightarrow> nat \<Rightarrow> resolution
    \<Rightarrow> resolution \<times> (error + sceneData)" where
  "try_scene json fps' sceneElements index st =
     (if length sceneElements \<le> index then (st, Inl TypeError)
      else
        let sceneEl = sceneElements ! index;
            ctx = scene_context fps' sceneElements index
        in if \<not> truthyAttr sceneEl ''id'' then (st, Inl SceneRequiresId)
           else
             (case parseTiming (ctx st) sceneEl of
                Inl e \<Rightarrow> (st, Inl e)
              | Inr sceneTiming \<Rightarrow>
                  (case scene_children json ctx (children sceneEl) st ([], [], [], 0) of
                     (st', Inl e) \<Rightarrow> (st', Inl e)
                   | (st', Inr (items, layers, components, componentIndex)) \<Rightarrow>
                       if json_throws json sceneEl ''styles'' then (st', Inl JsonSyntaxError)
                       else if json_throws json sceneEl ''markup'' then (st', Inl JsonSyntaxError)
                       else
                         (st', Inr \<lparr>data_id = the (getAttr sceneEl ''id''),
                                    data_time = sceneTiming,
                                    data_items = items,
                                    data_layers = layers,
                                    data_components = components\<rparr>))))"

text \<open>The statements after the construction of \<^verbatim>\<open>sceneData\<close>, up to \<^verbatim>\<open>progressed = true\<close>.\<close>

definition commit_scene :: "nat \<Rightarrow> sceneData \<Rightarrow> resolution \<Rightarrow> resolution" where
  "commit_scene index sd st =
     st\<lparr>resolved := (resolved st)(index \<mapsto> sd),
        sceneStartIndex :=
          (case data_time sd of
             None \<Rightarrow> sceneStartIndex st
           | Some t \<Rightarrow>
               (case startSec t of
                  None \<Rightarrow> sceneStartIndex st
                | Some s \<Rightarrow> (sceneStartIndex st)(data_id sd \<mapsto> s))),
        sceneEndIndex :=
          (case data_time sd of
             None \<Rightarrow> sceneEndIndex st
           | Some t \<Rightarrow>
               (case endSec t of
                  None \<Rightarrow> sceneEndIndex st
                | Some e \<Rightarrow> (sceneEndIndex st)(data_id sd \<mapsto> e))),
        pending := removeAll index (pending st)\<rparr>"

text \<open>
  One pass: the \<^verbatim>\<open>for\<close> loop over a snapshot of \<^verbatim>\<open>pending\<close>. A
  \<^verbatim>\<open>MissingTimeReferenceError\<close> is caught and the scene stays pending; any other error
  leaves the loop and the function.
\<close>

fun resolve_pass :: "(string \<Rightarrow> bool) \<Rightarrow> jsnum \<Rightarrow> element list \<Rightarrow> nat list \<Rightarrow> resolution \<Rightarrow> bool
    \<Rightarrow> error + resolution \<times> bool" where
  "resolve_pass json fps' sceneElements [] st progressed = Inr (st, progressed)"
| "resolve_pass json fps' sceneElements (index # rest) st progressed =
     (case try_scene json fps' sceneElements index st of
        (st', Inr sd) \<Rightarrow> resolve_pass json fps' sceneElements rest (commit_scene index sd st') True
      | (st', Inl (MissingTimeReference ref)) \<Rightarrow> resolve_pass json fps' sceneElements rest st' progressed
      | (st', Inl e) \<Rightarrow> Inl e)"

text \<open>\<^verbatim>\<open>getAttr(sceneElements[idx], "id") ?? `scene#${idx}`\<close>\<close>

definition unresolved_name :: "element list \<Rightarrow> nat \<Rightarrow> string" where
  "unresolved_name sceneElements idx =
     (case (if idx < length sceneElements then getAttr (sceneElements ! idx) ''id'' else None) of
        Some i \<Rightarrow> i
      | None \<Rightarrow> ''scene#'' @ show_nat idx)"

text \<open>
  The loop terminates because a pass that reports progress has removed an index from
  \<^verbatim>\<open>pending\<close>, and no pass adds one.
\<close>

lemma scene_children_pending:
  "pending (fst (scene_children json ctx els st acc)) = pending st"
proof (induction els arbitrary: st acc)
  case Nil
  then show ?case by simp
next
  case (Cons child rest)
  obtain items layers components componentIndex
    where acc: "acc = (items, layers, components, componentIndex)"
    by (cases acc) auto
  show ?case
    unfolding acc by (simp add: Cons.IH split: sum.splits)
qed

lemma try_scene_pending:
  "pending (fst (try_scene json fps' els index st)) = pending st"
proof -
  let ?sc = "scene_children json (scene_context fps' els index) (children (els ! index)) st
               ([], [], [], 0)"
  have sc: "pending (fst ?sc) = pending st"
    by (rule scene_children_pending)
  obtain st1 r where eq: "?sc = (st1, r)"
    by (cases ?sc) auto
  with sc have "pending st1 = pending st" by simp
  then show ?thesis
    using eq by (simp add: try_scene_def Let_def split: sum.splits prod.splits)
qed

lemma commit_scene_pending:
  "pending (commit_scene index sd st) = removeAll index (pending st)"
  by (simp add: commit_scene_def)

lemma resolve_pass_length:
  "resolve_pass json fps' els idxs st p = Inr (st', p')
     \<Longrightarrow> length (pending st') \<le> length (pending st)"
proof (induction idxs arbitrary: st p)
  case Nil
  then show ?case by simp
next
  case (Cons index rest)
  obtain st1 r where ts: "try_scene json fps' els index st = (st1, r)"
    by (cases "try_scene json fps' els index st") auto
  have p1: "pending st1 = pending st"
    using try_scene_pending [of json fps' els index st] ts by simp
  show ?case
  proof (cases r)
    case (Inr sd)
    with Cons.prems ts
    have "resolve_pass json fps' els rest (commit_scene index sd st1) True = Inr (st', p')"
      by simp
    from Cons.IH [OF this]
    have "length (pending st') \<le> length (removeAll index (pending st1))"
      by (simp add: commit_scene_pending)
    also have "\<dots> \<le> length (pending st1)"
      by (simp add: length_removeAll_less_eq)
    finally show ?thesis using p1 by simp
  next
    case (Inl e)
    show ?thesis
    proof (cases e)
      case (MissingTimeReference ref)
      with Cons.prems ts Inl
      have "resolve_pass json fps' els rest st1 p = Inr (st', p')"
        by simp
      from Cons.IH [OF this] p1 show ?thesis by simp
    qed (use Cons.prems ts Inl in simp_all)
  qed
qed

lemma resolve_pass_progress:
  "resolve_pass json fps' els idxs st False = Inr (st', True)
     \<Longrightarrow> set idxs \<subseteq> set (pending st)
     \<Longrightarrow> length (pending st') < length (pending st)"
proof (induction idxs arbitrary: st)
  case Nil
  then show ?case by simp
next
  case (Cons index rest)
  obtain st1 r where ts: "try_scene json fps' els index st = (st1, r)"
    by (cases "try_scene json fps' els index st") auto
  have p1: "pending st1 = pending st"
    using try_scene_pending [of json fps' els index st] ts by simp
  show ?case
  proof (cases r)
    case (Inr sd)
    with Cons.prems ts
    have "resolve_pass json fps' els rest (commit_scene index sd st1) True = Inr (st', True)"
      by simp
    from resolve_pass_length [OF this]
    have "length (pending st') \<le> length (removeAll index (pending st1))"
      by (simp add: commit_scene_pending)
    also have "\<dots> < length (pending st1)"
      using Cons.prems(2) p1 by (simp add: length_removeAll_less)
    finally show ?thesis using p1 by simp
  next
    case (Inl e)
    show ?thesis
    proof (cases e)
      case (MissingTimeReference ref)
      with Cons.prems ts Inl
      have run: "resolve_pass json fps' els rest st1 False = Inr (st', True)"
        by simp
      have sub: "set rest \<subseteq> set (pending st1)"
        using Cons.prems(2) p1 by simp
      from Cons.IH [OF run sub] p1 show ?thesis by simp
    qed (use Cons.prems ts Inl in simp_all)
  qed
qed

text \<open>
  The \<^verbatim>\<open>while (pending.size > 0)\<close> loop, with the counter \<^verbatim>\<open>passes\<close> as it is
  before the pass.
\<close>

function resolve_loop :: "(string \<Rightarrow> bool) \<Rightarrow> jsnum \<Rightarrow> element list \<Rightarrow> resolution \<Rightarrow> nat
    \<Rightarrow> error + resolution" where
  "resolve_loop json fps' sceneElements st passes =
     (if pending st = [] then Inr st
      else
        (case resolve_pass json fps' sceneElements (pending st) st False of
           Inl e \<Rightarrow> Inl e
         | Inr r \<Rightarrow>
             if \<not> snd r then
               Inl (UnresolvedTimeReferences (map (unresolved_name sceneElements) (pending (fst r))))
             else if length sceneElements + 2 < passes + 1 then Inl DidNotConverge
             else resolve_loop json fps' sceneElements (fst r) (passes + 1)))"
  by pat_completeness auto
termination
proof (relation "measure (\<lambda>(json, fps', sceneElements, st, passes). length (pending st))")
  show "wf (measure (\<lambda>(json, fps', sceneElements, st, passes). length (pending st)))"
    by simp
next
  fix json :: "string \<Rightarrow> bool" and fps' :: jsnum and sceneElements :: "element list"
    and st :: resolution and passes :: nat and r :: "resolution \<times> bool"
  assume "resolve_pass json fps' sceneElements (pending st) st False = Inr r" and "\<not> \<not> snd r"
  then have "resolve_pass json fps' sceneElements (pending st) st False = Inr (fst r, True)"
    by (cases r) simp
  from resolve_pass_progress [OF this]
  show "((json, fps', sceneElements, fst r, passes + 1), (json, fps', sceneElements, st, passes))
        \<in> measure (\<lambda>(json, fps', sceneElements, st, passes). length (pending st))"
    by simp
qed

declare resolve_loop.simps [simp del]

record voiceover =
  leadInSeconds :: "jsnum option"
  trimEndSeconds :: "jsnum option"

record composition =
  composition_id :: string
  meta_fps :: jsnum
  meta_width :: jsnum
  meta_height :: jsnum
  durationSeconds :: "jsnum option"
  posterTime :: "jsnum option"
  composition_voiceover :: "voiceover option"
  composition_scenes :: "sceneData list"

definition baseCtx :: "jsnum \<Rightarrow> timeEvalContext" where
  "baseCtx fps' =
     \<lparr>ctx_fps = fps', getSceneStart = (\<lambda>_. None), getSceneEnd = (\<lambda>_. None),
      getCueStart = (\<lambda>_. None), getPrevStart = None, getPrevEnd = None, getNextStart = None\<rparr>"

text \<open>The loop over the children of the root that looks for \<^verbatim>\<open>voiceover\<close>.\<close>

fun voiceover_loop :: "timeEvalContext \<Rightarrow> element list \<Rightarrow> voiceover option
    \<Rightarrow> error + voiceover option" where
  "voiceover_loop ctx [] v = Inr v"
| "voiceover_loop ctx (el # rest) v =
     (if tagName el = ''voiceover'' then
        (case optTimeValue ctx (getAttr el ''leadInSeconds'') of
           Inl e \<Rightarrow> Inl e
         | Inr leadIn \<Rightarrow>
             (case optTimeValue ctx (getAttr el ''trimEndSeconds'') of
                Inl e \<Rightarrow> Inl e
              | Inr trimEnd \<Rightarrow>
                  voiceover_loop ctx rest
                    (Some \<lparr>leadInSeconds = leadIn, trimEndSeconds = trimEnd\<rparr>)))
      else voiceover_loop ctx rest v)"

definition initial_resolution :: "element list \<Rightarrow> resolution" where
  "initial_resolution sceneElements =
     \<lparr>resolved = Map.empty, cueIds = {}, sceneStartIndex = Map.empty, sceneEndIndex = Map.empty,
      cueStartIndex = Map.empty, pending = [0..<length sceneElements]\<rparr>"

definition number_or :: "jsnum \<Rightarrow> element \<Rightarrow> string \<Rightarrow> jsnum" where
  "number_or dflt el name =
     (case parseNumber (Some (case getAttr el name of None \<Rightarrow> [] | Some v \<Rightarrow> v)) of
        None \<Rightarrow> dflt
      | Some n \<Rightarrow> n)"

definition loadVideoFileFromXml :: "(string \<Rightarrow> bool) \<Rightarrow> element \<Rightarrow> error + composition" where
  "loadVideoFileFromXml json doc =
     (if tagName doc \<notin> {''videoml'', ''video-ml'', ''vml''} then Inl InvalidRoot
      else
        let fps' = number_or (Fin 30) doc ''fps'';
            width = number_or (Fin 1280) doc ''width'';
            height = number_or (Fin 720) doc ''height''
        in if \<not> truthyAttr doc ''id'' then Inl VmlRequiresId
           else
             (case optTimeValue (baseCtx fps') (getAttr doc ''duration'') of
                Inl e \<Rightarrow> Inl e
              | Inr durationSeconds' \<Rightarrow>
                  (case optTimeValue (baseCtx fps') (getAttr doc ''poster'') of
                     Inl e \<Rightarrow> Inl e
                   | Inr posterTime' \<Rightarrow>
                       (let sceneElements = filter (\<lambda>c. tagName c = ''scene'') (children doc) in
                        case resolve_loop json fps' sceneElements
                               (initial_resolution sceneElements) 0 of
                          Inl e \<Rightarrow> Inl e
                        | Inr st \<Rightarrow>
                            (case voiceover_loop (baseCtx fps') (children doc) None of
                               Inl e \<Rightarrow> Inl e
                             | Inr vo \<Rightarrow>
                                 if sceneElements = [] then Inl RequiresScene
                                 else
                                   Inr \<lparr>composition_id = the (getAttr doc ''id''),
                                        meta_fps = fps',
                                        meta_width = width,
                                        meta_height = height,
                                        durationSeconds = durationSeconds',
                                        posterTime = posterTime',
                                        composition_voiceover = vo,
                                        composition_scenes =
                                          List.map_filter (resolved st)
                                            [0..<length sceneElements]\<rparr>)))))"

text \<open>
  The state after \<open>k\<close> more passes, when each of them returns, resolves a scene and leaves
  the count of passes within the bound, so that the loop goes on; \<open>passes\<close> counts the
  passes before.
\<close>

fun continued :: "(string \<Rightarrow> bool) \<Rightarrow> jsnum \<Rightarrow> element list \<Rightarrow> nat \<Rightarrow> nat \<Rightarrow> resolution
    \<Rightarrow> resolution option" where
  "continued json fps' sceneElements passes 0 st = Some st"
| "continued json fps' sceneElements passes (Suc k) st =
     (if pending st = [] then None
      else
        (case resolve_pass json fps' sceneElements (pending st) st False of
           Inl e \<Rightarrow> None
         | Inr r \<Rightarrow>
             if snd r \<and> \<not> length sceneElements + 2 < passes + 1
             then continued json fps' sceneElements (passes + 1) k (fst r)
             else None))"

section \<open>Structural patches: \<^verbatim>\<open>applyVomPatchesInBrowser\<close>\<close>

text \<open>The type \<^verbatim>\<open>VomPatchInput\<close>.\<close>

datatype patch =
    AppendNode string string "nat option"
  | RemoveNode string
  | SetAttr string string "string option"
  | SetText string string
  | ReplaceSubtree string string
  | SealScene string

text \<open>
  A node of the document is addressed by the path of child indices that leads to it from
  the root. \<^verbatim>\<open>findById\<close> visits the elements in document order and keeps the first one
  whose \<^verbatim>\<open>id\<close> attribute is the id looked for.
\<close>

type_synonym path = "nat list"

fun findById :: "string \<Rightarrow> element \<Rightarrow> path option"
  and findById_list :: "string \<Rightarrow> element list \<Rightarrow> nat \<Rightarrow> path option"
where
  "findById i (Element tg attrs cs txt) =
     (if map_of attrs ''id'' = Some i then Some [] else findById_list i cs 0)"
| "findById_list i [] n = None"
| "findById_list i (c # cs) n =
     (case findById i c of
        Some p \<Rightarrow> Some (n # p)
      | None \<Rightarrow> findById_list i cs (Suc n))"

fun node_at :: "element \<Rightarrow> path \<Rightarrow> element option" where
  "node_at el [] = Some el"
| "node_at el (i # p) = (if i < length (children el) then node_at (children el ! i) p else None)"

text \<open>
  \<^verbatim>\<open>findSceneAncestor\<close> climbs from the node and returns the first element with tag
  \<^verbatim>\<open>scene\<close>, the node itself included. On the way down from the root this is the last
  scene met.
\<close>

fun scene_on_path :: "element \<Rightarrow> path \<Rightarrow> element option \<Rightarrow> element option" where
  "scene_on_path el [] outer = (if tagName el = ''scene'' then Some el else outer)"
| "scene_on_path el (i # p) outer =
     (if i < length (children el)
      then scene_on_path (children el ! i) p (if tagName el = ''scene'' then Some el else outer)
      else None)"

definition findSceneAncestor :: "element \<Rightarrow> path \<Rightarrow> element option" where
  "findSceneAncestor rootEl p = scene_on_path rootEl p None"

text \<open>\<^verbatim>\<open>scene.getAttribute("sealed") ?? scene.getAttribute("data-sealed")\<close>\<close>

definition sealed_mark :: "element \<Rightarrow> string option" where
  "sealed_mark scene =
     (case getAttr scene ''sealed'' of Some v \<Rightarrow> Some v | None \<Rightarrow> getAttr scene ''data-sealed'')"

definition sealed_name :: "element \<Rightarrow> string" where
  "sealed_name scene = (case getAttr scene ''id'' of Some i \<Rightarrow> i | None \<Rightarrow> ''unknown'')"

text \<open>\<^verbatim>\<open>assertNotSealed\<close>: the error it throws, if any.\<close>

definition assertNotSealed :: "bool \<Rightarrow> element \<Rightarrow> path \<Rightarrow> error option" where
  "assertNotSealed enforceSealed rootEl p =
     (if \<not> enforceSealed then None
      else
        (case findSceneAncestor rootEl p of
           None \<Rightarrow> None
         | Some scene \<Rightarrow>
             if sealed_mark scene = Some ''true'' then Some (SealedScene (sealed_name scene))
             else None))"

text \<open>The mutations of the DOM, as functions on the tree.\<close>

fun modify_at :: "(element \<Rightarrow> element) \<Rightarrow> path \<Rightarrow> element \<Rightarrow> element" where
  "modify_at f [] el = f el"
| "modify_at f (i # p) (Element tg attrs cs txt) =
     (if i < length cs then Element tg attrs (cs[i := modify_at f p (cs ! i)]) txt
      else Element tg attrs cs txt)"

definition setAttribute :: "string \<Rightarrow> string \<Rightarrow> element \<Rightarrow> element" where
  "setAttribute name v el =
     Element (tagName el)
       (if name \<in> fst ` set (attributes el)
        then map (\<lambda>kv. if fst kv = name then (name, v) else kv) (attributes el)
        else attributes el @ [(name, v)])
       (children el) (ownText el)"

definition removeAttribute :: "string \<Rightarrow> element \<Rightarrow> element" where
  "removeAttribute name el =
     Element (tagName el) (filter (\<lambda>kv. fst kv \<noteq> name) (attributes el)) (children el) (ownText el)"

definition set_textContent :: "string \<Rightarrow> element \<Rightarrow> element" where
  "set_textContent txt el = Element (tagName el) (attributes el) [] txt"

text \<open>\<^verbatim>\<open>appendChild\<close>, or \<^verbatim>\<open>insertBefore\<close> the child element at \<^verbatim>\<open>index\<close>.\<close>

definition insert_child :: "element \<Rightarrow> nat option \<Rightarrow> element \<Rightarrow> element" where
  "insert_child new index parent =
     Element (tagName parent) (attributes parent)
       (case index of
          None \<Rightarrow> children parent @ [new]
        | Some i \<Rightarrow>
            if length (children parent) \<le> i then children parent @ [new]
            else take i (children parent) @ new # drop i (children parent))
       (ownText parent)"

definition remove_child :: "nat \<Rightarrow> element \<Rightarrow> element" where
  "remove_child i parent =
     Element (tagName parent) (attributes parent)
       (take i (children parent) @ drop (Suc i) (children parent)) (ownText parent)"

text \<open>
  The function keeps the root element it read at the start and searches from it for every
  patch. Removing or replacing that root changes what the document holds but not where
  the later patches search: \<open>held\<close> says whether the document still holds the root
  (\<open>Live\<close>), holds another element, or is empty.
\<close>

datatype holding = Live | Replaced element | Removed

record patched =
  walk_root :: element
  held :: holding

text \<open>\<^verbatim>\<open>target.parentNode\<close> is set for every node below the root, and for the root while
  the document holds it.\<close>

definition has_parent :: "patched \<Rightarrow> path \<Rightarrow> bool" where
  "has_parent st p = (p \<noteq> [] \<or> held st = Live)"

fun apply_patch :: "(string \<Rightarrow> element option) \<Rightarrow> bool \<Rightarrow> patch \<Rightarrow> patched \<Rightarrow> error + patched" where
  "apply_patch parseFragment enforceSealed (AppendNode parentId nodeXml index) st =
     (case findById parentId (walk_root st) of
        None \<Rightarrow> Inl (NodeNotFound ''appendNode'' parentId)
      | Some p \<Rightarrow>
          (case assertNotSealed enforceSealed (walk_root st) p of
             Some e \<Rightarrow> Inl e
           | None \<Rightarrow>
               (case parseFragment nodeXml of
                  None \<Rightarrow> Inl NodeXmlWithoutElement
                | Some newNode \<Rightarrow>
                    Inr (st\<lparr>walk_root := modify_at (insert_child newNode index) p (walk_root st)\<rparr>))))"
| "apply_patch parseFragment enforceSealed (RemoveNode nodeId) st =
     (case findById nodeId (walk_root st) of
        None \<Rightarrow> Inl (NodeNotFound ''removeNode'' nodeId)
      | Some p \<Rightarrow>
          if \<not> has_parent st p then Inl (NodeNotFound ''removeNode'' nodeId)
          else
            (case assertNotSealed enforceSealed (walk_root st) p of
               Some e \<Rightarrow> Inl e
             | None \<Rightarrow>
                 if p = [] then Inr (st\<lparr>held := Removed\<rparr>)
                 else Inr (st\<lparr>walk_root := modify_at (remove_child (last p)) (butlast p) (walk_root st)\<rparr>)))"
| "apply_patch parseFragment enforceSealed (SetAttr nodeId name v) st =
     (case findById nodeId (walk_root st) of
        None \<Rightarrow> Inl (NodeNotFound ''setAttr'' nodeId)
      | Some p \<Rightarrow>
          (case assertNotSealed enforceSealed (walk_root st) p of
             Some e \<Rightarrow> Inl e
           | None \<Rightarrow>
               Inr (st\<lparr>walk_root :=
                        modify_at (case v of None \<Rightarrow> removeAttribute name
                                   | Some x \<Rightarrow> setAttribute name x) p (walk_root st)\<rparr>)))"
| "apply_patch parseFragment enforceSealed (SetText nodeId txt) st =
     (case findById nodeId (walk_root st) of
        None \<Rightarrow> Inl (NodeNotFound ''setText'' nodeId)
      | Some p \<Rightarrow>
          (case assertNotSealed enforceSealed (walk_root st) p of
             Some e \<Rightarrow> Inl e
           | None \<Rightarrow> Inr (st\<lparr>walk_root := modify_at (set_textContent txt) p (walk_root st)\<rparr>)))"
| "apply_patch parseFragment enforceSealed (ReplaceSubtree nodeId nodeXml) st =
     (case findById nodeId (walk_root st) of
        None \<Rightarrow> Inl (NodeNotFound ''replaceSubtree'' nodeId)
      | Some p \<Rightarrow>
          if \<not> has_parent st p then Inl (NodeNotFound ''replaceSubtree'' nodeId)
          else
            (case assertNotSealed enforceSealed (walk_root st) p of
               Some e \<Rightarrow> Inl e
             | None \<Rightarrow>
                 (case parseFragment nodeXml of
                    None \<Rightarrow> Inl NodeXmlWithoutElement
                  | Some newNode \<Rightarrow>
                      if p = [] then Inr (st\<lparr>held := Replaced newNode\<rparr>)
                      else Inr (st\<lparr>walk_root := modify_at (\<lambda>_. newNode) p (walk_root st)\<rparr>))))"
| "apply_patch parseFragment enforceSealed (SealScene sceneId) st =
     (case findById sceneId (walk_root st) of
        None \<Rightarrow> Inl (NodeNotFound ''sealScene'' sceneId)
      | Some p \<Rightarrow>
          if map_option tagName (node_at (walk_root st) p) \<noteq> Some ''scene''
          then Inl (NodeNotFound ''sealScene'' sceneId)
          else Inr (st\<lparr>walk_root := modify_at (setAttribute ''sealed'' ''true'') p (walk_root st)\<rparr>))"

text \<open>The \<^verbatim>\<open>for\<close> loop over the batch: the first error ends it.\<close>

fun apply_patches :: "(string \<Rightarrow> element option) \<Rightarrow> bool \<Rightarrow> patch list \<Rightarrow> patched \<Rightarrow> error + patched" where
  "apply_patches parseFragment enforceSealed [] st = Inr st"
| "apply_patches parseFragment enforceSealed (p # ps) st =
     (case apply_patch parseFragment enforceSealed p st of
        Inl e \<Rightarrow> Inl e
      | Inr st' \<Rightarrow> apply_patches parseFragment enforceSealed ps st')"

definition serialized :: "patched \<Rightarrow> element option" where
  "serialized st =
     (case held st of Live \<Rightarrow> Some (walk_root st) | Replaced d \<Rightarrow> Some d | Removed \<Rightarrow> None)"

text \<open>
  \<^verbatim>\<open>applyVomPatchesInBrowser(xml, patches, enforceSealed)\<close>. Parsing and serialising
  are the host's: the function takes the parsed document and returns the element the
  document holds at the end (\<open>None\<close> for an empty document), and \<open>parseFragment\<close>, the
  first element of a parsed \<^verbatim>\<open>nodeXml\<close>, is a parameter.
\<close>

definition applyVomPatchesInBrowser :: "(string \<Rightarrow> element option) \<Rightarrow> element \<Rightarrow> patch list \<Rightarrow> bool
    \<Rightarrow> error + element option" where
  "applyVomPatchesInBrowser parseFragment doc patches enforceSealed =
     (if tagName doc \<notin> {''videoml'', ''video-ml'', ''vml''} then Inl InvalidRoot
      else
        (case apply_patches parseFragment enforceSealed patches \<lparr>walk_root = doc, held = Live\<rparr> of
           Inl e \<Rightarrow> Inl e
         | Inr st \<Rightarrow> Inr (serialized st)))"

text \<open>The structural patches and the id each of them addresses.\<close>

fun target_id :: "patch \<Rightarrow> string option" where
  "target_id (AppendNode parentId nodeXml index) = Some parentId"
| "target_id (RemoveNode nodeId) = Some nodeId"
| "target_id (SetAttr nodeId name v) = Some nodeId"
| "target_id (SetText nodeId txt) = Some nodeId"
| "target_id (ReplaceSubtree nodeId nodeXml) = Some nodeId"
| "target_id (SealScene sceneId) = None"

text \<open>The scenes a node lies inside: every element with tag \<^verbatim>\<open>scene\<close> on its path.\<close>

fun scenes_on_path :: "element \<Rightarrow> path \<Rightarrow> element list" where
  "scenes_on_path el [] = (if tagName el = ''scene'' then [el] else [])"
| "scenes_on_path el (i # p) =
     (if tagName el = ''scene'' then [el] else [])
     @ (if i < length (children el) then scenes_on_path (children el ! i) p else [])"

section \<open>The scene table of \<^verbatim>\<open>runtime.ts\<close>: \<^verbatim>\<open>computeSceneTimings\<close>\<close>

text \<open>
  \<^verbatim>\<open>parseTimeSeconds\<close> tries three regular expression literals before it falls back on
  \<^verbatim>\<open>parseFloat\<close>. Each is \<^verbatim>\<open>/^([0-9]*\\.?[0-9]+)u$/\<close> for a unit \<^verbatim>\<open>u\<close>: digits, a
  backslash (the literal escapes it), at most one character that is no line break, one or
  more digits, and the unit. The group is the value without the unit. A value such as
  \<^verbatim>\<open>500ms\<close> has no backslash and matches none of the three.
\<close>

definition all_digits :: "string \<Rightarrow> bool" where
  "all_digits s = (s \<noteq> [] \<and> (\<forall>c \<in> set s. is_digit c))"

definition unit_match :: "string \<Rightarrow> string \<Rightarrow> string option" where
  "unit_match u v =
     (case dropWhile is_digit v of
        [] \<Rightarrow> None
      | b # r \<Rightarrow>
          if b = backslash \<and> length u \<le> length r \<and> drop (length r - length u) r = u then
            (let body = take (length r - length u) r in
             if all_digits body
                \<or> (body \<noteq> [] \<and> hd body \<noteq> CHR 0x0A \<and> hd body \<noteq> CHR 0x0D \<and> all_digits (tl body))
             then Some (take (length v - length u) v)
             else None)
          else None)"

text \<open>\<^verbatim>\<open>Number.isFinite(num) ? num : null\<close>\<close>

definition finite_or_null :: "jsnum \<Rightarrow> jsnum option" where
  "finite_or_null n = (if is_finite n then Some n else None)"

definition parseTimeSeconds :: "string option \<Rightarrow> jsnum \<Rightarrow> jsnum option" where
  "parseTimeSeconds raw fps' =
     (case raw of
        None \<Rightarrow> None
      | Some r \<Rightarrow>
          let v = trim r in
          if v = [] then None
          else
            (case unit_match ''ms'' v of
               Some g \<Rightarrow> Some (js_div (parseFloat g) (Fin 1000))
             | None \<Rightarrow>
                 (case unit_match ''s'' v of
                    Some g \<Rightarrow> Some (parseFloat g)
                  | None \<Rightarrow>
                      (case unit_match ''f'' v of
                         Some g \<Rightarrow> Some (js_div (parseFloat g) fps')
                       | None \<Rightarrow> finite_or_null (parseFloat v)))))"

text \<open>\<^verbatim>\<open>Number.isFinite(parsed) && parsed > 0\<close>\<close>

definition finite_positive :: "jsnum \<Rightarrow> jsnum option" where
  "finite_positive n = (if is_finite n \<and> js_gt n (Fin 0) then Some n else None)"

text \<open>\<^verbatim>\<open>parseTimeSeconds(...) ?? dflt\<close>\<close>

definition seconds_or :: "jsnum \<Rightarrow> string option \<Rightarrow> jsnum \<Rightarrow> jsnum" where
  "seconds_or dflt raw fps' = (case parseTimeSeconds raw fps' of None \<Rightarrow> dflt | Some v \<Rightarrow> v)"

text \<open>\<^verbatim>\<open>toLowerCase\<close> on code units below 256: the letters A to Z, and the accented capitals.\<close>

definition lower_char :: "char \<Rightarrow> char" where
  "lower_char c =
     (if (65 \<le> code_of c \<and> code_of c \<le> 90)
         \<or> (192 \<le> code_of c \<and> code_of c \<le> 222 \<and> code_of c \<noteq> 215)
      then char_of (code_of c + 32) else c)"

definition toLowerCase :: "string \<Rightarrow> string" where
  "toLowerCase s = map lower_char s"

text \<open>
  \<^verbatim>\<open>elementDuration\<close>, with its loop over the children of a \<^verbatim>\<open>sequence\<close> and its
  loop over the children of any other element (the source writes the latter twice).
\<close>

function (sequential) elementDuration :: "jsnum \<Rightarrow> element \<Rightarrow> jsnum option"
  and sequence_children :: "jsnum \<Rightarrow> element list \<Rightarrow> jsnum \<Rightarrow> jsnum \<Rightarrow> jsnum option"
  and stack_children :: "jsnum \<Rightarrow> element list \<Rightarrow> jsnum option \<Rightarrow> jsnum option"
where
  "elementDuration fps' (Element tg attrs cs tx) =
     (case parseTimeSeconds (map_of attrs ''duration'') fps' of
        Some durationAttr \<Rightarrow> Some durationAttr
      | None \<Rightarrow>
          (case parseTimeSeconds (map_of attrs ''end'') fps' of
             Some endAttr \<Rightarrow>
               Some (js_max [Fin 0, js_sub endAttr (seconds_or (Fin 0) (map_of attrs ''start'') fps')])
           | None \<Rightarrow>
               if cs = [] then None
               else if toLowerCase tg = ''sequence'' then sequence_children fps' cs (Fin 0) (Fin 0)
               else stack_children fps' cs None))"
| "sequence_children fps' [] cursor maxEnd = Some maxEnd"
| "sequence_children fps' (child # rest) cursor maxEnd =
     (case elementDuration fps' child of
        None \<Rightarrow> None
      | Some childDur \<Rightarrow>
          (let localEnd = js_add (seconds_or cursor (getAttr child ''start'') fps') childDur
           in sequence_children fps' rest localEnd
                (if js_gt localEnd maxEnd then localEnd else maxEnd)))"
| "stack_children fps' [] maxDur = maxDur"
| "stack_children fps' (child # rest) maxDur =
     (case elementDuration fps' child of
        None \<Rightarrow> None
      | Some childDur \<Rightarrow>
          (let localEnd = js_add (seconds_or (Fin 0) (getAttr child ''start'') fps') childDur
           in stack_children fps' rest
                (case maxDur of
                   None \<Rightarrow> Some localEnd
                 | Some m \<Rightarrow> if js_gt localEnd m then Some localEnd else Some m)))"
  by pat_completeness auto
termination
  by (relation "measure (case_sum (\<lambda>(f, el). size el)
                           (case_sum (\<lambda>(f, els, r). size_list size els)
                                     (\<lambda>(f, els, r). size_list size els)))") auto

text \<open>
  \<^verbatim>\<open>collectTimeScale\<close> multiplies the scales found on the way from an element up to
  the root, in this order. The chain it climbs is given as a list, the element first.
  (Ancestors outside the composition, in the hosting page, are taken to carry no time
  scale.)
\<close>

definition own_timeScale :: "element \<Rightarrow> jsnum option" where
  "own_timeScale el =
     (case (case getAttr el ''timeScale'' of Some v \<Rightarrow> Some v | None \<Rightarrow> getAttr el ''time-scale'') of
        None \<Rightarrow> None
      | Some raw \<Rightarrow>
          if raw = [] then None
          else finite_positive (parseFloat raw))"

definition collectTimeScale :: "element list \<Rightarrow> jsnum" where
  "collectTimeScale chain =
     foldl (\<lambda>scale el. case own_timeScale el of None \<Rightarrow> scale | Some parsed \<Rightarrow> js_mul scale parsed)
       (Fin 1) chain"

text \<open>
  An element of the mounted tree together with where it is: the path that leads to it,
  and its ancestors, the parent first.
\<close>

record located =
  located_path :: node
  located_element :: element
  located_ancestors :: "element list"

text \<open>
  \<^verbatim>\<open>querySelectorAll\<close> with a tag name in lower case: the descendants of an element
  with this tag, in document order. The mounted tree is an HTML tree, where the selector
  matches a tag whatever the case in which \<^verbatim>\<open>tagName\<close> reports it.
\<close>

fun descendants :: "node \<Rightarrow> element list \<Rightarrow> element \<Rightarrow> located list"
  and descendants_list :: "node \<Rightarrow> element list \<Rightarrow> element list \<Rightarrow> nat \<Rightarrow> located list"
where
  "descendants p ancestors (Element tg attrs cs tx) =
     descendants_list p (Element tg attrs cs tx # ancestors) cs 0"
| "descendants_list p ancestors [] n = []"
| "descendants_list p ancestors (c # cs) n =
     \<lparr>located_path = p @ [n], located_element = c, located_ancestors = ancestors\<rparr>
     # descendants (p @ [n]) ancestors c
     @ descendants_list p ancestors cs (Suc n)"

definition querySelectorAll :: "string \<Rightarrow> located \<Rightarrow> located list" where
  "querySelectorAll tg d =
     filter (\<lambda>x. toLowerCase (tagName (located_element x)) = tg)
       (descendants (located_path d) (located_ancestors d) (located_element d))"

text \<open>The root of the mounted tree.\<close>

definition at_root :: "element \<Rightarrow> located" where
  "at_root el = \<lparr>located_path = [], located_element = el, located_ancestors = []\<rparr>"

text \<open>The cue of a scene, as the inner loop of \<^verbatim>\<open>computeSceneTimings\<close> times it.\<close>

definition cue_timing :: "jsnum \<Rightarrow> jsnum \<Rightarrow> jsnum option \<Rightarrow> jsnum \<Rightarrow> located \<Rightarrow> cueTiming option" where
  "cue_timing fps' start end' scale d =
     (let cue = located_element d in
      case getAttr cue ''id'' of
        None \<Rightarrow> None
      | Some cueId \<Rightarrow>
          if cueId = [] then None
          else
            let cueStartAttr = parseTimeSeconds (getAttr cue ''start'') fps';
                cueDurationAttr = parseTimeSeconds (getAttr cue ''duration'') fps';
                cueEndAttr = parseTimeSeconds (getAttr cue ''end'') fps';
                cueStart =
                  (case cueStartAttr of
                     Some s \<Rightarrow> Some s
                   | None \<Rightarrow>
                       (case (cueEndAttr, end') of
                          (Some ce, Some e) \<Rightarrow> Some (js_max [start, js_sub ce start])
                        | _ \<Rightarrow> None))
            in (case cueStart of
                  None \<Rightarrow> None
                | Some cs \<Rightarrow>
                    let absolute = js_add start (js_mul cs scale)
                    in Some \<lparr>cue_id = cueId, cue_start = absolute,
                             cue_end =
                               (case cueDurationAttr of
                                  Some cd \<Rightarrow> Some (js_add absolute (js_mul cd scale))
                                | None \<Rightarrow>
                                    (case cueEndAttr of
                                       Some ce \<Rightarrow> Some (js_add start (js_mul ce scale))
                                     | None \<Rightarrow> None)),
                             cue_element = located_path d\<rparr>))"

text \<open>One scene of the outer loop: its timing from the cursor.\<close>

definition scene_timing :: "jsnum \<Rightarrow> jsnum \<Rightarrow> located \<Rightarrow> sceneTiming" where
  "scene_timing fps' cursor d =
     (let sceneEl = located_element d;
          start = seconds_or cursor (getAttr sceneEl ''start'') fps';
          scale = collectTimeScale (sceneEl # located_ancestors d)
      in \<lparr>scene_id = (case getAttr sceneEl ''id'' of None \<Rightarrow> [] | Some i \<Rightarrow> i),
          scene_start = start,
          scene_end = map_option (\<lambda>dur. js_add start (js_mul dur scale)) (elementDuration fps' sceneEl),
          scene_element = located_path d\<rparr>)"

text \<open>
  The outer loop, from the value of \<^verbatim>\<open>cursor\<close>: the scenes and the cues it pushes. The
  cursor moves to the end of a scene that has one.
\<close>

fun scene_loop_timings :: "jsnum \<Rightarrow> jsnum \<Rightarrow> located list \<Rightarrow> sceneTiming list \<times> cueTiming list" where
  "scene_loop_timings fps' cursor [] = ([], [])"
| "scene_loop_timings fps' cursor (d # rest) =
     (let t = scene_timing fps' cursor d;
          cs = List.map_filter
                 (cue_timing fps' (scene_start t) (scene_end t)
                    (collectTimeScale (located_element d # located_ancestors d)))
                 (querySelectorAll ''cue'' d);
          r = scene_loop_timings fps' (case scene_end t of Some e \<Rightarrow> e | None \<Rightarrow> cursor) rest
      in (t # fst r, cs @ snd r))"

text \<open>\<^verbatim>\<open>duration\<close>: the largest end of a scene.\<close>

fun total_duration :: "sceneTiming list \<Rightarrow> jsnum option \<Rightarrow> jsnum option" where
  "total_duration [] d = d"
| "total_duration (sc # rest) d =
     total_duration rest
       (case scene_end sc of
          None \<Rightarrow> d
        | Some e \<Rightarrow> (case d of None \<Rightarrow> Some e | Some m \<Rightarrow> if js_gt e m then Some e else Some m))"

text \<open>
  \<^verbatim>\<open>computeSceneTimings(xml, root)\<close>: \<open>xml\<close> is the markup as the resolver parses it,
  \<open>root\<close> the mounted tree. The function first resolves the markup, and throws what the
  resolver throws; of the composition it uses the frame rate.
\<close>

record sceneTimings =
  table_scenes :: "sceneTiming list"
  table_cues :: "cueTiming list"
  table_duration :: "jsnum option"
  table_fps :: jsnum

definition computeSceneTimings :: "(string \<Rightarrow> bool) \<Rightarrow> element \<Rightarrow> element \<Rightarrow> error + sceneTimings" where
  "computeSceneTimings json xml root' =
     (case loadVideoFileFromXml json xml of
        Inl e \<Rightarrow> Inl e
      | Inr composition \<Rightarrow>
          (let r = scene_loop_timings (meta_fps composition) (Fin 0)
                     (querySelectorAll ''scene'' (at_root root'))
           in Inr \<lparr>table_scenes = fst r, table_cues = snd r,
                   table_duration = total_duration (fst r) None,
                   table_fps = meta_fps composition\<rparr>))"

text \<open>The cursor after a number of scenes: the end of the last one that has an end.\<close>

definition cursor_after :: "sceneTiming list \<Rightarrow> jsnum" where
  "cursor_after ts = foldl (\<lambda>c t. case scene_end t of Some e \<Rightarrow> e | None \<Rightarrow> c) (Fin 0) ts"

section \<open>Concrete inputs\<close>

definition example_mounted :: mounted where
  "example_mounted =
     \<lparr>player_fps = Fin 30,
      scenes = [\<lparr>scene_id = ''intro'', scene_start = Fin 0, scene_end = Some (Fin 10),
                 scene_element = [0]\<rparr>],
      cues = [],
      timedByScene = [''intro'' \<mapsto> [\<lparr>timed_element = [0, 0], timed_start = Fin 1, timed_end = Fin 2\<rparr>]]\<rparr>"

definition example_player :: player where
  "example_player =
     \<lparr>lastActiveSceneId = None, activeCues = {},
      document = \<lparr>styleDisplay = (\<lambda>_. []), videomlDisplay = (\<lambda>_. None),
                  runtimeHidden = (\<lambda>_. None), runtimeActive = (\<lambda>_. None)\<rparr>,
      videoVars = None\<rparr>"

definition two_scenes :: mounted where
  "two_scenes =
     \<lparr>player_fps = Fin 30,
      scenes = [\<lparr>scene_id = ''A'', scene_start = Fin 0, scene_end = None, scene_element = [0]\<rparr>,
                \<lparr>scene_id = ''B'', scene_start = Fin 5, scene_end = Some (Fin 8), scene_element = [1]\<rparr>],
      cues = [\<lparr>cue_id = ''c'', cue_start = Fin 5, cue_end = None, cue_element = [1, 0]\<rparr>],
      timedByScene = Map.empty\<rparr>"

definition fps25_doc :: element where
  "fps25_doc =
     Element ''vml'' [(''id'', ''v''), (''fps'', ''25'')]
       [Element ''scene'' [(''id'', ''a''), (''start'', ''24f''), (''end'', ''500ms'')] [] []] []"

definition cue_then_forward_scenes :: "element list" where
  "cue_then_forward_scenes =
     [Element ''scene'' [(''id'', ''A'')]
        [Element ''cue'' [(''id'', ''c1'')] [] [],
         Element ''title'' [(''start'', ''scene(B).start'')] [] []] [],
      Element ''scene'' [(''id'', ''B''), (''start'', ''0''), (''end'', ''5s'')] [] []]"

definition cue_then_forward_doc :: element where
  "cue_then_forward_doc = Element ''vml'' [(''id'', ''v'')] cue_then_forward_scenes []"

definition narrated_scenes :: "element list" where
  "narrated_scenes =
     [Element ''scene'' [(''id'', ''intro''), (''start'', ''0''), (''duration'', ''10s'')]
        [Element ''cue'' [(''id'', ''narration''), (''start'', ''1s'')]
           [Element ''voice'' [] [] ''Hello''] [],
         Element ''layer'' [(''id'', ''captions''), (''end'', ''scene(outro).end - 1s'')] [] []] [],
      Element ''scene'' [(''id'', ''outro''), (''start'', ''10s''), (''duration'', ''5s'')] [] []]"

definition narrated_doc :: element where
  "narrated_doc = Element ''vml'' [(''id'', ''talk'')] narrated_scenes []"

definition cycle_doc :: element where
  "cycle_doc =
     Element ''vml'' [(''id'', ''v'')]
       [Element ''scene'' [(''id'', ''A''), (''start'', ''scene(B).end''), (''duration'', ''1'')] [] [],
        Element ''scene'' [(''id'', ''B''), (''start'', ''scene(A).end''), (''duration'', ''1'')] [] []] []"

definition mixed_doc :: element where
  "mixed_doc =
     Element ''vml'' [(''id'', ''v'')]
       [Element ''scene'' [(''id'', ''A''), (''start'', ''scene(C).end''), (''duration'', ''2'')] [] [],
        Element ''scene'' [(''id'', ''B''), (''start'', ''0''), (''end'', ''3'')] [] [],
        Element ''scene'' [(''id'', ''C''), (''start'', ''prev.end''), (''end'', ''scene(B).end + 4'')] [] []] []"

text \<open>\<^verbatim>\<open>`Unresolved time references for scenes: ${unresolved}`\<close>, the ids joined by a comma
  and a space.\<close>

fun join_ids :: "string list \<Rightarrow> string" where
  "join_ids [] = []"
| "join_ids [x] = x"
| "join_ids (x # xs) = x @ '', '' @ join_ids xs"

definition unresolved_message :: "error \<Rightarrow> string" where
  "unresolved_message e =
     (case e of
        UnresolvedTimeReferences ids \<Rightarrow> ''Unresolved time references for scenes: '' @ join_ids ids
      | _ \<Rightarrow> [])"

definition nested_doc :: element where
  "nested_doc =
     Element ''vml'' [(''id'', ''v'')]
       [Element ''scene'' [(''id'', ''outer''), (''sealed'', ''true'')]
          [Element ''scene'' [(''id'', ''inner'')]
             [Element ''title'' [(''id'', ''t'')] [] ''old''] []] []] []"

definition sealed_doc :: element where
  "sealed_doc =
     Element ''vml'' [(''id'', ''v'')]
       [Element ''scene'' [(''id'', ''one'')]
          [Element ''title'' [(''id'', ''t'')] [] ''old''] [],
        Element ''scene'' [(''id'', ''two'')] [] []] []"

definition sealed_doc_after :: element where
  "sealed_doc_after =
     Element ''vml'' [(''id'', ''v'')]
       [Element ''scene'' [(''id'', ''one''), (''sealed'', ''true'')]
          [Element ''title'' [(''id'', ''t'')] [] ''old''] [],
        Element ''scene'' [(''id'', ''two''), (''title'', ''x'')] [] []] []"

definition no_fragment :: "string \<Rightarrow> element option" where
  "no_fragment nodeXml = None"

text \<open>
  The counter given to the parser is never used up: a call with more than six units per
  token (plus the depth of the call in the grammar) returns a result or an error of the
  program, and a result leaves fewer tokens than the call received.
\<close>

definition enough :: "nat \<Rightarrow> nat \<Rightarrow> 'a list \<Rightarrow> bool" where
  "enough n k ts = (6 * length ts + k < n)"

definition consumes :: "error + 'a \<times> 'b list \<Rightarrow> 'b list \<Rightarrow> bool" where
  "consumes r ts = (r \<noteq> Inl OutOfFuel \<and> (\<forall>x. r = Inr x \<longrightarrow> length (snd x) < length ts))"

definition keeps :: "error + 'a \<times> 'b list \<Rightarrow> 'b list \<Rightarrow> bool" where
  "keeps r ts = (r \<noteq> Inl OutOfFuel \<and> (\<forall>x. r = Inr x \<longrightarrow> length (snd x) \<le> length ts))"

text \<open>
  The errors that only the loops of the resolver raise: the two of the loop over the
  passes, and the duplicate-cue error of the loop over the children of a scene. Together
  with the exhausted recursion bound they are \<open>foreign\<close> to the evaluation of an element;
  without the duplicate-cue error they are \<open>outer_failures\<close>, foreign to the evaluation of
  a scene. A result avoids a set of errors when it is not one of them.
\<close>

definition loop_failures :: "error set" where
  "loop_failures =
     insert DidNotConverge (range UnresolvedTimeReferences \<union> range DuplicateCueId)"

definition avoids :: "error set \<Rightarrow> error + 'a \<Rightarrow> bool" where
  "avoids B r = (case r of Inl e \<Rightarrow> e \<notin> B | Inr x \<Rightarrow> True)"

definition foreign :: "error set" where
  "foreign = insert OutOfFuel loop_failures"

definition outer_failures :: "error set" where
  "outer_failures = insert OutOfFuel (insert DidNotConverge (range UnresolvedTimeReferences))"

definition unnamed_scene_doc :: "element list" where
  "unnamed_scene_doc = [Element ''scene'' [(''start'', ''0'')] [] []]"

definition any_json :: "string \<Rightarrow> bool" where
  "any_json s = True"

text \<open>
  The ids of the cues that the resolver reads (the children of a scene element with tag
  \<^verbatim>\<open>cue\<close> and an \<^verbatim>\<open>id\<close> attribute) and the ids of all cue elements of a document.
\<close>

definition cue_ids_in :: "element list \<Rightarrow> string list" where
  "cue_ids_in els =
     List.map_filter (\<lambda>c. if tagName c = ''cue'' then getAttr c ''id'' else None) els"

definition cue_ids_of :: "element \<Rightarrow> string list" where
  "cue_ids_of sceneEl = cue_ids_in (children sceneEl)"

definition scene_cue_ids :: "element \<Rightarrow> string list" where
  "scene_cue_ids doc = concat (map cue_ids_of (filter (\<lambda>c. tagName c = ''scene'') (children doc)))"

fun descendant_cue_ids :: "element \<Rightarrow> string list" where
  "descendant_cue_ids (Element tg attrs cs tx) =
     (if tg = ''cue'' then (case map_of attrs ''id'' of None \<Rightarrow> [] | Some i \<Rightarrow> [i]) else [])
     @ concat (map descendant_cue_ids cs)"

definition two_scene_cues_doc :: element where
  "two_scene_cues_doc =
     Element ''vml'' [(''id'', ''v'')]
       [Element ''scene'' [(''id'', ''A'')] [Element ''cue'' [(''id'', ''c'')] [] []] [],
        Element ''scene'' [(''id'', ''B'')] [Element ''cue'' [(''id'', ''c'')] [] []] []] []"

definition layered_cue_doc :: element where
  "layered_cue_doc =
     Element ''vml'' [(''id'', ''v'')]
       [Element ''scene'' [(''id'', ''A'')] [Element ''cue'' [(''id'', ''c'')] [] []] [],
        Element ''scene'' [(''id'', ''B'')]
          [Element ''layer'' [(''id'', ''l'')] [Element ''cue'' [(''id'', ''c'')] [] []] []] []] []"

definition untimed_duplicate_doc :: element where
  "untimed_duplicate_doc =
     Element ''vml'' [(''id'', ''v'')]
       [Element ''scene'' [(''id'', ''A'')] [Element ''cue'' [(''id'', ''c'')] [] []] [],
        Element ''scene'' [(''id'', ''B'')]
          [Element ''cue'' [(''id'', ''c''), (''end'', ''5'')] [] []] []] []"

definition nested_scene_cue_doc :: element where
  "nested_scene_cue_doc =
     Element ''vml'' [(''id'', ''v'')]
       [Element ''scene'' [(''id'', ''A'')]
          [Element ''cue'' [(''id'', ''c'')] [] [],
           Element ''scene'' [(''id'', ''B'')] [Element ''cue'' [(''id'', ''c'')] [] []] []] []] []"

text \<open>
  What holds of the state between two attempts: every resolved scene has cues with
  distinct ids, all of them in \<^verbatim>\<open>cueIds\<close>; two resolved scenes share no cue id; a scene
  is pending or resolved.
\<close>

definition cue_invariant :: "element list \<Rightarrow> resolution \<Rightarrow> bool" where
  "cue_invariant els st =
     ((\<forall>i \<in> dom (resolved st). i < length els \<and> distinct (cue_ids_of (els ! i))
          \<and> set (cue_ids_of (els ! i)) \<subseteq> cueIds st)
      \<and> (\<forall>i \<in> dom (resolved st). \<forall>j \<in> dom (resolved st).
            i \<noteq> j \<longrightarrow> set (cue_ids_of (els ! i)) \<inter> set (cue_ids_of (els ! j)) = {})
      \<and> (\<forall>i < length els. i \<in> set (pending st) \<or> i \<in> dom (resolved st)))"

text \<open>Scenes that leave their start to the player.\<close>

definition gap_doc :: element where
  "gap_doc = Element ''vml'' [(''id'', ''v'')]
          [Element ''scene'' [(''id'', ''A''), (''start'', ''0''), (''duration'', ''5'')] [] [],
           Element ''scene'' [(''id'', ''B''), (''start'', ''7'')] [] [],
           Element ''scene'' [(''id'', ''C'')] [] []] []"

definition implicit_doc :: element where
  "implicit_doc = Element ''vml'' [(''id'', ''v'')]
          [Element ''scene'' [(''id'', ''A''), (''duration'', ''5'')] [] [],
           Element ''scene'' [(''id'', ''B''), (''duration'', ''3'')] [] []] []"

section \<open>Properties of the numbers\<close>

lemma js_lt_Fin [simp]: "js_lt (Fin a) (Fin b) \<longleftrightarrow> a < b"
  by (simp add: js_lt_def)

lemma js_ge_Fin [simp]: "js_ge (Fin a) (Fin b) \<longleftrightarrow> b \<le> a"
  by (auto simp add: js_ge_def)

lemma js_gt_Fin [simp]: "js_gt (Fin a) (Fin b) \<longleftrightarrow> b < a"
  by (simp add: js_gt_def)

section \<open>Properties of the clock\<close>

lemma tick_stopped:
  "\<not> running s \<Longrightarrow> tick c ts s = \<lparr>state = s, notified = None, rescheduled = False\<rparr>"
  by (simp add: tick_def)

lemma tick_clamps:
  assumes "running s" "clockMode c = Bounded" "\<not> loop c" "duration c = Some d"
    and "js_ge (advanced ts s) d"
  shows "time (state (tick c ts s)) = d"
    and "\<not> running (state (tick c ts s))"
    and "\<not> rescheduled (tick c ts s)"
  using assms by (simp_all add: tick_def advanced_def Let_def)

lemma tick_wraps:
  assumes "running s" "clockMode c = Bounded" "loop c" "duration c = Some d"
    and "js_ge (advanced ts s) d"
  shows "time (state (tick c ts s)) = (if js_gt d (Fin 0) then js_mod (advanced ts s) d else Fin 0)"
    and "running (state (tick c ts s))"
    and "rescheduled (tick c ts s)"
  using assms by (simp_all add: tick_def advanced_def Let_def)

lemma advanced_example:
  "advanced (Fin 2100) \<lparr>lastTs = Some (Fin 1000), running = True, frame = fr, time = Fin (9 / 2)\<rparr>
     = double (56 / 10)"
proof -
  have "js_add (Fin (9 / 2)) (js_div (js_sub (Fin 2100) (Fin 1000)) (Fin 1000)) = double (56 / 10)"
    by code_simp
  then show ?thesis by (simp add: advanced_def)
qed

text \<open>
  Claim C6. A bounded clock that does not loop: a tick whose advanced time reaches or
  passes the duration \<open>d\<close> sets the time to exactly \<open>d\<close>, stops the clock and requests no
  further frame, and every later call of \<open>tick\<close> leaves the stopped clock as it is and
  calls no subscriber. A bounded clock that loops: such a tick sets the time to the
  remainder \<^verbatim>\<open>nextTime % d\<close> of the advanced time when \<open>d\<close> is positive, and to 0 when
  \<open>d\<close> is 0, and the clock keeps running. With duration 5, the tick from 4.5 with a delta
  of 1.1 seconds advances to the double 5.6 and ends at its remainder, the double
  0.5999999999999996, which is within \<open>10\<^sup>-\<^sup>1\<^sup>5\<close> of 0.6.
\<close>

theorem tick_bounded_clamp_and_wrap:
  "(running s \<and> clockMode c = Bounded \<and> \<not> loop c \<and> duration c = Some d
      \<and> js_ge (advanced ts s) d
    \<longrightarrow> time (state (tick c ts s)) = d
        \<and> \<not> running (state (tick c ts s))
        \<and> \<not> rescheduled (tick c ts s)
        \<and> (\<forall>ts'. tick c ts' (state (tick c ts s))
              = \<lparr>state = state (tick c ts s), notified = None, rescheduled = False\<rparr>))
   \<and> (running s1 \<and> clockMode c1 = Bounded \<and> loop c1 \<and> duration c1 = Some d1
        \<and> js_ge (advanced ts1 s1) d1 \<and> js_gt d1 (Fin 0)
      \<longrightarrow> time (state (tick c1 ts1 s1)) = js_mod (advanced ts1 s1) d1
          \<and> running (state (tick c1 ts1 s1)))
   \<and> time (state (tick \<lparr>fps = f, clockMode = Bounded, loop = True, duration = Some (Fin 5)\<rparr>
        (Fin 2100)
        \<lparr>lastTs = Some (Fin 1000), running = True, frame = fr, time = Fin (9 / 2)\<rparr>))
       = double (5999999999999996 / 10 ^ 16)
   \<and> \<bar>finite_value (double (5999999999999996 / 10 ^ 16)) - 6 / 10\<bar> < 1 / 10 ^ 15
   \<and> (running s0 \<and> clockMode c0 = Bounded \<and> loop c0 \<and> duration c0 = Some (Fin 0)
        \<and> js_ge (advanced ts0 s0) (Fin 0)
      \<longrightarrow> time (state (tick c0 ts0 s0)) = Fin 0 \<and> running (state (tick c0 ts0 s0)))"
proof -
  let ?c5 = "\<lparr>fps = f, clockMode = Bounded, loop = True, duration = Some (Fin 5)\<rparr>"
  let ?s5 = "\<lparr>lastTs = Some (Fin 1000), running = True, frame = fr, time = Fin (9 / 2)\<rparr>"
  have clamp: "running s \<and> clockMode c = Bounded \<and> \<not> loop c \<and> duration c = Some d
      \<and> js_ge (advanced ts s) d
    \<longrightarrow> time (state (tick c ts s)) = d
        \<and> \<not> running (state (tick c ts s))
        \<and> \<not> rescheduled (tick c ts s)
        \<and> (\<forall>ts'. tick c ts' (state (tick c ts s))
              = \<lparr>state = state (tick c ts s), notified = None, rescheduled = False\<rparr>)"
    using tick_clamps tick_stopped by blast
  have wrap: "running s1 \<and> clockMode c1 = Bounded \<and> loop c1 \<and> duration c1 = Some d1
        \<and> js_ge (advanced ts1 s1) d1 \<and> js_gt d1 (Fin 0)
      \<longrightarrow> time (state (tick c1 ts1 s1)) = js_mod (advanced ts1 s1) d1
          \<and> running (state (tick c1 ts1 s1))"
    using tick_wraps(1,2) [of s1 c1 d1 ts1] by simp
  have ge: "js_ge (double (56 / 10)) (Fin 5)"
    by code_simp
  have md: "js_mod (double (56 / 10)) (Fin 5) = double (5999999999999996 / 10 ^ 16)"
    by code_simp
  have five: "time (state (tick ?c5 (Fin 2100) ?s5)) = double (5999999999999996 / 10 ^ 16)"
    using tick_wraps(1) [of ?s5 ?c5 "Fin 5" "Fin 2100"] ge md
    by (simp add: advanced_example)
  have near: "\<bar>finite_value (double (5999999999999996 / 10 ^ 16)) - 6 / 10\<bar> < 1 / 10 ^ 15"
    by code_simp
  have zero: "running s0 \<and> clockMode c0 = Bounded \<and> loop c0 \<and> duration c0 = Some (Fin 0)
        \<and> js_ge (advanced ts0 s0) (Fin 0)
      \<longrightarrow> time (state (tick c0 ts0 s0)) = Fin 0 \<and> running (state (tick c0 ts0 s0))"
    using tick_wraps(1,2) [of s0 c0 "Fin 0" ts0] by simp
  from clamp wrap five near zero show ?thesis by blast
qed

theorem tick_bounded_clamp_and_wrap_witness:
  "running \<lparr>lastTs = Some (Fin 1000), running = True, frame = Fin 285, time = Fin (19 / 2)\<rparr>
   \<and> js_ge (advanced (Fin 2000)
        \<lparr>lastTs = Some (Fin 1000), running = True, frame = Fin 285, time = Fin (19 / 2)\<rparr>) (Fin 10)
   \<and> time (state (tick \<lparr>fps = Fin 30, clockMode = Bounded, loop = False, duration = Some (Fin 10)\<rparr>
        (Fin 2000)
        \<lparr>lastTs = Some (Fin 1000), running = True, frame = Fin 285, time = Fin (19 / 2)\<rparr>))
       = Fin 10
   \<and> tick \<lparr>fps = Fin 30, clockMode = Bounded, loop = False, duration = Some (Fin 10)\<rparr> (Fin 3000)
        (state (tick \<lparr>fps = Fin 30, clockMode = Bounded, loop = False, duration = Some (Fin 10)\<rparr>
          (Fin 2000)
          \<lparr>lastTs = Some (Fin 1000), running = True, frame = Fin 285, time = Fin (19 / 2)\<rparr>))
       = \<lparr>state = \<lparr>lastTs = Some (Fin 2000), running = False, frame = Fin 300, time = Fin 10\<rparr>,
          notified = None, rescheduled = False\<rparr>
   \<and> js_ge (advanced (Fin 9000)
        \<lparr>lastTs = Some (Fin 1000), running = True, frame = Fin 180, time = Fin 6\<rparr>) (Fin 5)
   \<and> js_gt (Fin 5) (Fin 0)
   \<and> time (state (tick \<lparr>fps = Fin 30, clockMode = Bounded, loop = True, duration = Some (Fin 5)\<rparr>
        (Fin 9000) \<lparr>lastTs = Some (Fin 1000), running = True, frame = Fin 180, time = Fin 6\<rparr>))
       = Fin 4
   \<and> js_ge (advanced (Fin 500)
        \<lparr>lastTs = Some (Fin 0), running = True, frame = Fin 0, time = Fin 0\<rparr>) (Fin 0)
   \<and> time (state (tick \<lparr>fps = Fin 30, clockMode = Bounded, loop = True, duration = Some (Fin 0)\<rparr>
        (Fin 500) \<lparr>lastTs = Some (Fin 0), running = True, frame = Fin 0, time = Fin 0\<rparr>))
       = Fin 0"
proof -
  let ?c = "\<lparr>fps = Fin 30, clockMode = Bounded, loop = False, duration = Some (Fin 10)\<rparr>"
  let ?s = "\<lparr>lastTs = Some (Fin 1000), running = True, frame = Fin 285, time = Fin (19 / 2)\<rparr>"
  let ?cw = "\<lparr>fps = Fin 30, clockMode = Bounded, loop = True, duration = Some (Fin 5)\<rparr>"
  let ?sw = "\<lparr>lastTs = Some (Fin 1000), running = True, frame = Fin 180, time = Fin 6\<rparr>"
  let ?cz = "\<lparr>fps = Fin 30, clockMode = Bounded, loop = True, duration = Some (Fin 0)\<rparr>"
  let ?sz = "\<lparr>lastTs = Some (Fin 0), running = True, frame = Fin 0, time = Fin 0\<rparr>"
  have a1: "advanced (Fin 2000) ?s = double (105 / 10)"
    by code_simp
  have h1: "js_ge (advanced (Fin 2000) ?s) (Fin 10)"
    by code_simp
  have a2: "advanced (Fin 9000) ?sw = Fin 14"
    by code_simp
  have m2: "js_mod (Fin 14) (Fin 5) = Fin 4"
    by code_simp
  have h3: "js_ge (advanced (Fin 500) ?sz) (Fin 0)"
    by code_simp
  have st: "state (tick ?c (Fin 2000) ?s)
      = \<lparr>lastTs = Some (Fin 2000), running = False, frame = Fin 300, time = Fin 10\<rparr>"
    by code_simp
  from tick_bounded_clamp_and_wrap [where s = ?s and c = ?c and d = "Fin 10" and ts = "Fin 2000"
      and ?s1.0 = ?sw and ?c1.0 = ?cw and ?d1.0 = "Fin 5" and ?ts1.0 = "Fin 9000"
      and ?s0.0 = ?sz and ?c0.0 = ?cz and ?ts0.0 = "Fin 500"] h1 h3 st a2 m2
  show ?thesis by simp
qed

text \<open>
  The time that the looping clock of duration 5 reaches from 4.5 by a delta of 1.1 is
  not the double 0.6: the sum 5.6 is rounded before the remainder is taken.
\<close>

theorem tick_wrap_counterexample:
  "time (state (tick \<lparr>fps = Fin 30, clockMode = Bounded, loop = True, duration = Some (Fin 5)\<rparr>
        (Fin 2100)
        \<lparr>lastTs = Some (Fin 1000), running = True, frame = Fin 135, time = Fin (9 / 2)\<rparr>))
     \<noteq> double (6 / 10)
   \<and> js_lt (time (state (tick \<lparr>fps = Fin 30, clockMode = Bounded, loop = True, duration = Some (Fin 5)\<rparr>
        (Fin 2100)
        \<lparr>lastTs = Some (Fin 1000), running = True, frame = Fin 135, time = Fin (9 / 2)\<rparr>)))
       (double (6 / 10))"
  by code_simp


section \<open>Properties of the tick handler\<close>


lemma scene_loop_fst:
  "fst (scene_loop t scs (a, d)) = derived_active t scs a"
  by (induction scs arbitrary: a d) simp_all

lemma scene_loop_videomlDisplay:
  "videomlDisplay (snd (scene_loop t scs (a, d))) = videomlDisplay d"
  by (induction scs arbitrary: a d) simp_all

lemma show_or_hide_other:
  "timed_element item \<noteq> el \<Longrightarrow>
     styleDisplay (show_or_hide t item d) el = styleDisplay d el
     \<and> videomlDisplay (show_or_hide t item d) el = videomlDisplay d el"
  by (simp add: show_or_hide_def Let_def split: option.splits)

lemma timed_loop_other:
  "el \<notin> timed_element ` set items \<Longrightarrow>
     styleDisplay (timed_loop t items d) el = styleDisplay d el
     \<and> videomlDisplay (timed_loop t items d) el = videomlDisplay d el"
  by (induction items arbitrary: d) (auto simp: show_or_hide_other)

lemma show_or_hide_self:
  "styleDisplay (show_or_hide t item d) (timed_element item) =
     (if isVisible t item then (case videomlDisplay d (timed_element item) of Some orig \<Rightarrow> orig | None \<Rightarrow> [])
      else ''none'')"
  by (simp add: show_or_hide_def Let_def split: option.splits)

lemma timed_loop_item:
  "item \<in> set items \<Longrightarrow> distinct (map timed_element items) \<Longrightarrow>
   styleDisplay (timed_loop t items d) (timed_element item) =
     (if isVisible t item then (case videomlDisplay d (timed_element item) of Some orig \<Rightarrow> orig | None \<Rightarrow> [])
      else ''none'')"
proof (induction items arbitrary: d)
  case Nil
  then show ?case by simp
next
  case (Cons x xs)
  show ?case
  proof (cases "item = x")
    case True
    with Cons.prems have "timed_element x \<notin> timed_element ` set xs" by simp
    then show ?thesis
      using True by (simp add: timed_loop_other show_or_hide_self)
  next
    case False
    with Cons.prems have in_xs: "item \<in> set xs" and d: "distinct (map timed_element xs)"
      and ne: "timed_element x \<noteq> timed_element item"
      by auto
    show ?thesis
      using Cons.IH [OF in_xs d] ne by (simp add: show_or_hide_other)
  qed
qed

lemma isVisible_1_2:
  "timed_start item = Fin 1 \<Longrightarrow> timed_end item = Fin 2 \<Longrightarrow>
     isVisible (Fin t) item \<longleftrightarrow> 1 \<le> t \<and> t < 2"
  by (auto simp: isVisible_def js_ge_def)

lemma cue_loop_no_scene_event:
  "\<forall>e \<in> set evs. \<not> is_scene_event e \<Longrightarrow>
   \<forall>e \<in> set (snd (cue_loop t fr cs (a, evs))). \<not> is_scene_event e"
proof (induction cs arbitrary: a evs)
  case Nil
  then show ?case by simp
next
  case (Cons c cs)
  have s: "\<forall>e \<in> set (evs @ [CueStart (cue_id c) t fr]). \<not> is_scene_event e"
    using Cons.prems by (simp add: is_scene_event_def)
  have e: "\<forall>e \<in> set (evs @ [CueEnd (cue_id c) t fr]). \<not> is_scene_event e"
    using Cons.prems by (simp add: is_scene_event_def)
  show ?case
    using Cons.IH [OF s] Cons.IH [OF e] Cons.IH [OF Cons.prems]
    by (simp add: Let_def)
qed

lemma handleTick_events:
  "snd (handleTick m t p) =
     snd (cue_loop t (js_floor (js_mul t (player_fps m))) (cues m)
            (activeCues p, [TimelineTick (js_floor (js_mul t (player_fps m))) t (player_fps m)]))
     @ scene_events (lastActiveSceneId p) (derived_active t (scenes m) None) t
         (js_floor (js_mul t (player_fps m)))"
  using scene_loop_fst [of t "scenes m" None "document p"]
  by (auto simp: handleTick_def Let_def split: prod.splits)

lemma handleTick_lastActive:
  "lastActiveSceneId (fst (handleTick m t p)) = derived_active t (scenes m) None"
  using scene_loop_fst [of t "scenes m" None "document p"]
  by (auto simp: handleTick_def Let_def split: prod.splits)

lemma handleTick_display:
  assumes "derived_active t (scenes m) None = Some a" "a \<noteq> []"
    and "timedByScene m a = Some items" "item \<in> set items"
    and "distinct (map timed_element items)"
  shows "styleDisplay (document (fst (handleTick m t p))) (timed_element item) =
     (if isVisible t item
      then (case videomlDisplay (document p) (timed_element item) of Some orig \<Rightarrow> orig | None \<Rightarrow> [])
      else ''none'')"
proof -
  obtain d1 where sl: "scene_loop t (scenes m) (None, document p) = (Some a, d1)"
    using scene_loop_fst [of t "scenes m" None "document p"] assms(1)
    by (cases "scene_loop t (scenes m) (None, document p)") simp
  have vd: "videomlDisplay d1 = videomlDisplay (document p)"
    using scene_loop_videomlDisplay [of t "scenes m" None "document p"] sl by simp
  have "document (fst (handleTick m t p)) = timed_loop t items d1"
    using sl assms(2,3) by (simp add: handleTick_def Let_def truthy_def split: prod.splits)
  then show ?thesis
    using timed_loop_item [OF assms(4,5), of t d1] vd by simp
qed

text \<open>
  Claim C7. A timed element of the active scene is shown on the half-open interval
  \<open>start \<le> time < end\<close>: with \<open>start = 1\<close> and \<open>end = 2\<close> the handler's test holds
  exactly for \<open>1 \<le> t < 2\<close>, and after the tick the element's \<^verbatim>\<open>style.display\<close> is
  its saved value (or unset) for these \<open>t\<close> and \<^verbatim>\<open>none\<close> for every other \<open>t\<close>.
\<close>

theorem timed_visibility_half_open:
  assumes "derived_active (Fin t) (scenes m) None = Some a" and "a \<noteq> []"
    and "timedByScene m a = Some items" and "item \<in> set items"
    and "distinct (map timed_element items)"
    and "timed_start item = Fin 1" and "timed_end item = Fin 2"
  shows "(isVisible (Fin t) item \<longleftrightarrow> 1 \<le> t \<and> t < 2)
    \<and> styleDisplay (document (fst (handleTick m (Fin t) p))) (timed_element item) =
        (if 1 \<le> t \<and> t < 2
         then (case videomlDisplay (document p) (timed_element item) of
                 Some original \<Rightarrow> original | None \<Rightarrow> [])
         else ''none'')"
  using handleTick_display [OF assms(1-5), of p] isVisible_1_2 [OF assms(6,7), of t]
  by simp

theorem timed_visibility_half_open_witness:
  "derived_active (double (1999 / 1000)) (scenes example_mounted) None = Some ''intro''
   \<and> derived_active (Fin 2) (scenes example_mounted) None = Some ''intro''
   \<and> timedByScene example_mounted ''intro''
       = Some [\<lparr>timed_element = [0, 0], timed_start = Fin 1, timed_end = Fin 2\<rparr>]
   \<and> isVisible (double (1999 / 1000)) \<lparr>timed_element = [0, 0], timed_start = Fin 1, timed_end = Fin 2\<rparr>
   \<and> \<not> isVisible (Fin 2) \<lparr>timed_element = [0, 0], timed_start = Fin 1, timed_end = Fin 2\<rparr>
   \<and> styleDisplay (document (fst (handleTick example_mounted (double (1999 / 1000)) example_player))) [0, 0] = []
   \<and> styleDisplay (document (fst (handleTick example_mounted (Fin 2) example_player))) [0, 0] = ''none''"
proof -
  let ?item = "\<lparr>timed_element = [0, 0], timed_start = Fin 1, timed_end = Fin 2\<rparr>"
  let ?t = "4501347827556811 / 2251799813685248 :: rat"
  have t: "double (1999 / 1000) = Fin ?t"
    by code_simp
  have a1: "derived_active (Fin ?t) (scenes example_mounted) None = Some ''intro''"
    by (simp add: example_mounted_def scene_isActive_def scene_bound_def)
  have a2: "derived_active (Fin 2) (scenes example_mounted) None = Some ''intro''"
    by (simp add: example_mounted_def scene_isActive_def scene_bound_def)
  have tb: "timedByScene example_mounted ''intro'' = Some [?item]"
    by (simp add: example_mounted_def)
  have ne: "''intro'' \<noteq> []" by simp
  have mem: "?item \<in> set [?item]" by simp
  have dist: "distinct (map timed_element [?item])" by simp
  have s: "timed_start ?item = Fin 1" and e: "timed_end ?item = Fin 2" by simp_all
  have v: "videomlDisplay (document example_player) [0, 0] = None"
    by (simp add: example_player_def)
  from timed_visibility_half_open [OF a1 ne tb mem dist s e, of example_player]
       timed_visibility_half_open [OF a2 ne tb mem dist s e, of example_player]
       a1 a2 tb v
  show ?thesis unfolding t by simp
qed

text \<open>
  Claim C8. When the active scene derived at one tick is \<open>a\<close> and the one derived at the
  next tick is a different scene \<open>b\<close>, the events of the second tick end with
  \<^verbatim>\<open>scene:end\<close> for \<open>a\<close> immediately followed by \<^verbatim>\<open>scene:start\<close> for \<open>b\<close>, and
  no other scene event is dispatched in that tick. On a tick that activates \<open>b\<close> while
  no scene was active before, the only scene event is \<^verbatim>\<open>scene:start\<close> for \<open>b\<close>.
\<close>

theorem scene_end_before_scene_start:
  "(derived_active t1 (scenes m) None = Some a \<and> a \<noteq> []
      \<and> derived_active t2 (scenes m) None = Some b \<and> b \<noteq> [] \<and> a \<noteq> b
    \<longrightarrow> (\<exists>pre. snd (handleTick m t2 (fst (handleTick m t1 p)))
                = pre @ [SceneEnd a t2 (js_floor (js_mul t2 (player_fps m))),
                         SceneStart b t2 (js_floor (js_mul t2 (player_fps m)))]
              \<and> (\<forall>e \<in> set pre. \<not> is_scene_event e)))
   \<and> (\<not> truthy (lastActiveSceneId p0)
      \<and> derived_active t0 (scenes m0) None = Some b0 \<and> b0 \<noteq> []
    \<longrightarrow> (\<exists>pre. snd (handleTick m0 t0 p0)
                = pre @ [SceneStart b0 t0 (js_floor (js_mul t0 (player_fps m0)))]
              \<and> (\<forall>e \<in> set pre. \<not> is_scene_event e)))"
proof -
  have pre: "\<forall>e \<in> set (snd (cue_loop t fr cs (ac, [TimelineTick fr t f]))). \<not> is_scene_event e"
    for t fr cs ac f
    by (rule cue_loop_no_scene_event) (simp add: is_scene_event_def)
  have change: "derived_active t1 (scenes m) None = Some a \<and> a \<noteq> []
      \<and> derived_active t2 (scenes m) None = Some b \<and> b \<noteq> [] \<and> a \<noteq> b
    \<longrightarrow> (\<exists>pre. snd (handleTick m t2 (fst (handleTick m t1 p)))
                = pre @ [SceneEnd a t2 (js_floor (js_mul t2 (player_fps m))),
                         SceneStart b t2 (js_floor (js_mul t2 (player_fps m)))]
              \<and> (\<forall>e \<in> set pre. \<not> is_scene_event e))"
  proof
    assume h: "derived_active t1 (scenes m) None = Some a \<and> a \<noteq> []
      \<and> derived_active t2 (scenes m) None = Some b \<and> b \<noteq> [] \<and> a \<noteq> b"
    have last: "lastActiveSceneId (fst (handleTick m t1 p)) = Some a"
      using h by (simp add: handleTick_lastActive)
    have "scene_events (Some a) (Some b) t2 (js_floor (js_mul t2 (player_fps m)))
        = [SceneEnd a t2 (js_floor (js_mul t2 (player_fps m))),
           SceneStart b t2 (js_floor (js_mul t2 (player_fps m)))]"
      using h by (auto simp: scene_events_def truthy_def)
    then show "\<exists>pre. snd (handleTick m t2 (fst (handleTick m t1 p)))
                = pre @ [SceneEnd a t2 (js_floor (js_mul t2 (player_fps m))),
                         SceneStart b t2 (js_floor (js_mul t2 (player_fps m)))]
              \<and> (\<forall>e \<in> set pre. \<not> is_scene_event e)"
      using h last pre by (simp add: handleTick_events)
  qed
  have first: "\<not> truthy (lastActiveSceneId p0)
      \<and> derived_active t0 (scenes m0) None = Some b0 \<and> b0 \<noteq> []
    \<longrightarrow> (\<exists>pre. snd (handleTick m0 t0 p0)
                = pre @ [SceneStart b0 t0 (js_floor (js_mul t0 (player_fps m0)))]
              \<and> (\<forall>e \<in> set pre. \<not> is_scene_event e))"
  proof
    assume h: "\<not> truthy (lastActiveSceneId p0)
      \<and> derived_active t0 (scenes m0) None = Some b0 \<and> b0 \<noteq> []"
    then have "scene_events (lastActiveSceneId p0) (Some b0) t0 (js_floor (js_mul t0 (player_fps m0)))
        = [SceneStart b0 t0 (js_floor (js_mul t0 (player_fps m0)))]"
      by (auto simp: scene_events_def truthy_def split: option.splits)
    then show "\<exists>pre. snd (handleTick m0 t0 p0)
                = pre @ [SceneStart b0 t0 (js_floor (js_mul t0 (player_fps m0)))]
              \<and> (\<forall>e \<in> set pre. \<not> is_scene_event e)"
      using h pre by (simp add: handleTick_events)
  qed
  from change first show ?thesis by blast
qed

theorem scene_end_before_scene_start_witness:
  "derived_active (Fin 4) (scenes two_scenes) None = Some ''A''
   \<and> derived_active (Fin 5) (scenes two_scenes) None = Some ''B''
   \<and> snd (handleTick two_scenes (Fin 5) (fst (handleTick two_scenes (Fin 4) example_player)))
       = [TimelineTick (Fin 150) (Fin 5) (Fin 30), CueStart ''c'' (Fin 5) (Fin 150),
          SceneEnd ''A'' (Fin 5) (Fin 150), SceneStart ''B'' (Fin 5) (Fin 150)]
   \<and> \<not> truthy (lastActiveSceneId example_player)
   \<and> snd (handleTick two_scenes (Fin 4) example_player)
       = [TimelineTick (Fin 120) (Fin 4) (Fin 30), SceneStart ''A'' (Fin 4) (Fin 120)]"
proof -
  have a1: "derived_active (Fin 4) (scenes two_scenes) None = Some ''A''"
    by (simp add: two_scenes_def scene_isActive_def scene_bound_def)
  have a2: "derived_active (Fin 5) (scenes two_scenes) None = Some ''B''"
    by (simp add: two_scenes_def scene_isActive_def scene_bound_def)
  have l: "\<not> truthy (lastActiveSceneId example_player)"
    by (simp add: example_player_def truthy_def)
  have fr [simp]: "js_floor (js_mul (Fin 4) (Fin 30)) = Fin 120"
    "js_floor (js_mul (Fin 5) (Fin 30)) = Fin 150"
    by code_simp+
  have e1: "snd (handleTick two_scenes (Fin 4) example_player)
       = [TimelineTick (Fin 120) (Fin 4) (Fin 30), SceneStart ''A'' (Fin 4) (Fin 120)]"
    by (simp add: handleTick_def two_scenes_def example_player_def Let_def scene_isActive_def
        scene_bound_def cue_isActive_def scene_events_def truthy_def)
  have e2: "snd (handleTick two_scenes (Fin 5) (fst (handleTick two_scenes (Fin 4) example_player)))
       = [TimelineTick (Fin 150) (Fin 5) (Fin 30), CueStart ''c'' (Fin 5) (Fin 150),
          SceneEnd ''A'' (Fin 5) (Fin 150), SceneStart ''B'' (Fin 5) (Fin 150)]"
    by (simp add: handleTick_def two_scenes_def example_player_def Let_def scene_isActive_def
        scene_bound_def cue_isActive_def scene_events_def truthy_def)
  from scene_end_before_scene_start [where ?t1.0 = "Fin 4" and ?t2.0 = "Fin 5" and m = two_scenes
      and a = "''A''" and b = "''B''" and p = example_player and ?p0.0 = example_player
      and ?t0.0 = "Fin 4" and ?m0.0 = two_scenes and ?b0.0 = "''A''"] a1 a2 l e1 e2
  show ?thesis by simp
qed


section \<open>Properties of the scene table\<close>

lemma scene_loop_timings_length:
  "length (fst (scene_loop_timings fps' c ds)) = length ds"
  by (induction ds arbitrary: c) (simp_all add: Let_def)

lemma scene_loop_timings_element:
  "i < length ds \<Longrightarrow>
     scene_element (fst (scene_loop_timings fps' c ds) ! i) = located_path (ds ! i)"
proof (induction ds arbitrary: c i)
  case Nil
  then show ?case by simp
next
  case (Cons d rest)
  show ?case
  proof (cases i)
    case 0
    then show ?thesis by (simp add: Let_def scene_timing_def)
  next
    case (Suc k)
    with Cons.prems have "k < length rest" by simp
    from Cons.IH [OF this] Suc show ?thesis by (simp add: Let_def)
  qed
qed

lemma scene_loop_timings_start:
  "i < length ds \<Longrightarrow> getAttr (located_element (ds ! i)) ''start'' = None \<Longrightarrow>
   scene_start (fst (scene_loop_timings fps' c ds) ! i)
     = foldl (\<lambda>c t. case scene_end t of Some e \<Rightarrow> e | None \<Rightarrow> c) c
         (take i (fst (scene_loop_timings fps' c ds)))"
proof (induction ds arbitrary: c i)
  case Nil
  then show ?case by simp
next
  case (Cons d rest)
  show ?case
  proof (cases i)
    case 0
    with Cons.prems show ?thesis
      by (simp add: Let_def scene_timing_def seconds_or_def parseTimeSeconds_def)
  next
    case (Suc k)
    with Cons.prems have k: "k < length rest" "getAttr (located_element (rest ! k)) ''start'' = None"
      by simp_all
    from Cons.IH [OF k] Suc show ?thesis by (simp add: Let_def)
  qed
qed

lemma scene_loop_timings_end:
  "i < length ds \<Longrightarrow>
     scene_end (fst (scene_loop_timings fps' c ds) ! i)
       = map_option
           (\<lambda>dur. js_add (scene_start (fst (scene_loop_timings fps' c ds) ! i))
                    (js_mul dur (collectTimeScale (located_element (ds ! i)
                                                   # located_ancestors (ds ! i)))))
           (elementDuration fps' (located_element (ds ! i)))"
proof (induction ds arbitrary: c i)
  case Nil
  then show ?case by simp
next
  case (Cons d rest)
  show ?case
  proof (cases i)
    case 0
    then show ?thesis by (simp add: Let_def scene_timing_def)
  next
    case (Suc k)
    with Cons.prems have "k < length rest" by simp
    from Cons.IH [OF this] Suc show ?thesis by (simp add: Let_def)
  qed
qed

lemma cursor_after_last:
  "scene_end t = Some e \<Longrightarrow> cursor_after (ts @ [t]) = e"
  by (simp add: cursor_after_def)

lemma parseTiming_without_start:
  assumes "getAttr el ''start'' = None" and "parseTiming ctx el = Inr (Some t)"
  shows "startSec t = (if truthyAttr el ''duration'' then Some (Fin 0) else None)"
  using assms
  by (auto simp add: parseTiming_def Let_def truthyAttr_def truthy_def
      split: if_splits sum.splits option.splits)

lemma scene_table_start:
  assumes "computeSceneTimings json xml root' = Inr table"
    and "i < length (querySelectorAll ''scene'' (at_root root'))"
    and "getAttr (located_element (querySelectorAll ''scene'' (at_root root') ! i)) ''start'' = None"
  shows "length (table_scenes table) = length (querySelectorAll ''scene'' (at_root root'))
       \<and> scene_element (table_scenes table ! i)
           = located_path (querySelectorAll ''scene'' (at_root root') ! i)
       \<and> scene_end (table_scenes table ! i)
           = map_option
               (\<lambda>dur. js_add (scene_start (table_scenes table ! i))
                  (js_mul dur
                     (collectTimeScale
                        (located_element (querySelectorAll ''scene'' (at_root root') ! i)
                         # located_ancestors (querySelectorAll ''scene'' (at_root root') ! i)))))
               (elementDuration (table_fps table)
                  (located_element (querySelectorAll ''scene'' (at_root root') ! i)))
       \<and> scene_start (table_scenes table ! i) = cursor_after (take i (table_scenes table))
       \<and> (i = 0 \<longrightarrow> scene_start (table_scenes table ! i) = Fin 0)
       \<and> (\<forall>e. 0 < i \<and> scene_end (table_scenes table ! (i - 1)) = Some e
              \<longrightarrow> scene_start (table_scenes table ! i) = e)"
proof -
  let ?ds = "querySelectorAll ''scene'' (at_root root')"
  let ?scs = "table_scenes table"
  from assms(1) have scs: "?scs = fst (scene_loop_timings (table_fps table) (Fin 0) ?ds)"
    by (auto simp add: computeSceneTimings_def Let_def split: sum.splits)
  have len: "length ?scs = length ?ds"
    unfolding scs by (rule scene_loop_timings_length)
  have el: "scene_element (?scs ! i) = located_path (?ds ! i)"
    unfolding scs using assms(2) by (rule scene_loop_timings_element)
  have ends: "scene_end (?scs ! i)
      = map_option
          (\<lambda>dur. js_add (scene_start (?scs ! i))
             (js_mul dur
                (collectTimeScale (located_element (?ds ! i) # located_ancestors (?ds ! i)))))
          (elementDuration (table_fps table) (located_element (?ds ! i)))"
    using scene_loop_timings_end [OF assms(2), of "table_fps table" "Fin 0"] scs by simp
  have start: "scene_start (?scs ! i) = cursor_after (take i ?scs)"
    using scene_loop_timings_start [OF assms(2,3), of "table_fps table" "Fin 0"] scs
    by (simp add: cursor_after_def)
  have first: "i = 0 \<longrightarrow> scene_start (?scs ! i) = Fin 0"
    using start by (auto simp add: cursor_after_def)
  have prev: "\<forall>e. 0 < i \<and> scene_end (?scs ! (i - 1)) = Some e \<longrightarrow> scene_start (?scs ! i) = e"
  proof (intro allI impI)
    fix e
    assume a: "0 < i \<and> scene_end (?scs ! (i - 1)) = Some e"
    then obtain k where k: "i = Suc k" by (cases i) auto
    with assms(2) len have "k < length ?scs" by simp
    then have "take i ?scs = take k ?scs @ [?scs ! k]"
      unfolding k by (rule take_Suc_conv_app_nth)
    moreover from a k have "scene_end (?scs ! k) = Some e" by simp
    ultimately show "scene_start (?scs ! i) = e"
      using start by (simp add: cursor_after_last)
  qed
  from len el ends start first prev show ?thesis by blast
qed

text \<open>
  Claim C4, amended. In the scene table that \<^verbatim>\<open>computeSceneTimings\<close> builds for the
  player, a scene without a \<^verbatim>\<open>start\<close> attribute starts where the cursor stands: at the
  end of the last scene before it that has an end, and at 0 when there is none. Hence the
  first scene starts at 0, and a later scene starts at the end of the scene before it
  whenever that scene has an end; the end of a scene is its start plus its duration, as
  \<^verbatim>\<open>elementDuration\<close> finds it, times its time scale. The resolver has no such default: \<^verbatim>\<open>parseTiming\<close>
  gives an element without a \<^verbatim>\<open>start\<close> attribute the start 0 when it has a duration,
  and no start otherwise.
\<close>

theorem implicit_scene_start:
  "(computeSceneTimings json xml root' = Inr table
      \<and> i < length (querySelectorAll ''scene'' (at_root root'))
      \<and> getAttr (located_element (querySelectorAll ''scene'' (at_root root') ! i)) ''start'' = None
    \<longrightarrow> length (table_scenes table) = length (querySelectorAll ''scene'' (at_root root'))
        \<and> scene_element (table_scenes table ! i)
            = located_path (querySelectorAll ''scene'' (at_root root') ! i)
        \<and> scene_end (table_scenes table ! i)
            = map_option
                (\<lambda>dur. js_add (scene_start (table_scenes table ! i))
                   (js_mul dur
                      (collectTimeScale
                         (located_element (querySelectorAll ''scene'' (at_root root') ! i)
                          # located_ancestors (querySelectorAll ''scene'' (at_root root') ! i)))))
                (elementDuration (table_fps table)
                   (located_element (querySelectorAll ''scene'' (at_root root') ! i)))
        \<and> scene_start (table_scenes table ! i) = cursor_after (take i (table_scenes table))
        \<and> (i = 0 \<longrightarrow> scene_start (table_scenes table ! i) = Fin 0)
        \<and> (\<forall>e. 0 < i \<and> scene_end (table_scenes table ! (i - 1)) = Some e
               \<longrightarrow> scene_start (table_scenes table ! i) = e))
   \<and> (getAttr el ''start'' = None \<and> parseTiming ctx el = Inr (Some t)
        \<longrightarrow> startSec t = (if truthyAttr el ''duration'' then Some (Fin 0) else None))"
  using scene_table_start [of json xml root' table i] parseTiming_without_start [of el ctx t]
  by blast

theorem implicit_scene_start_witness:
  "computeSceneTimings any_json implicit_doc implicit_doc
     = Inr \<lparr>table_scenes =
              [\<lparr>scene_id = ''A'', scene_start = Fin 0, scene_end = Some (Fin 5), scene_element = [0]\<rparr>,
               \<lparr>scene_id = ''B'', scene_start = Fin 5, scene_end = Some (Fin 8), scene_element = [1]\<rparr>],
            table_cues = [], table_duration = Some (Fin 8), table_fps = Fin 30\<rparr>
   \<and> map (\<lambda>d. getAttr (located_element d) ''start'') (querySelectorAll ''scene'' (at_root implicit_doc))
       = [None, None]
   \<and> cursor_after [\<lparr>scene_id = ''A'', scene_start = Fin 0, scene_end = Some (Fin 5),
                      scene_element = [0]\<rparr>] = Fin 5
   \<and> getAttr (Element ''scene'' [(''id'', ''B''), (''duration'', ''3'')] [] []) ''start'' = None
   \<and> parseTiming (baseCtx (Fin 30)) (Element ''scene'' [(''id'', ''B''), (''duration'', ''3'')] [] [])
       = Inr (Some \<lparr>startSec = Some (Fin 0), endSec = Some (Fin 3)\<rparr>)"
proof -
  let ?table = "\<lparr>table_scenes =
              [\<lparr>scene_id = ''A'', scene_start = Fin 0, scene_end = Some (Fin 5), scene_element = [0]\<rparr>,
               \<lparr>scene_id = ''B'', scene_start = Fin 5, scene_end = Some (Fin 8), scene_element = [1]\<rparr>],
            table_cues = [], table_duration = Some (Fin 8), table_fps = Fin 30\<rparr>"
  let ?B = "Element ''scene'' [(''id'', ''B''), (''duration'', ''3'')] [] []"
  have r: "computeSceneTimings any_json implicit_doc implicit_doc = Inr ?table"
    by code_simp
  have n: "1 < length (querySelectorAll ''scene'' (at_root implicit_doc))"
    by code_simp
  have a: "getAttr (located_element (querySelectorAll ''scene'' (at_root implicit_doc) ! 1)) ''start''
      = None"
    by code_simp
  have s: "map (\<lambda>d. getAttr (located_element d) ''start'')
      (querySelectorAll ''scene'' (at_root implicit_doc)) = [None, None]"
    by code_simp
  have b: "getAttr ?B ''start'' = None"
    by code_simp
  have p: "parseTiming (baseCtx (Fin 30)) ?B
      = Inr (Some \<lparr>startSec = Some (Fin 0), endSec = Some (Fin 3)\<rparr>)"
    by code_simp
  from implicit_scene_start [of any_json implicit_doc implicit_doc ?table 1 ?B "baseCtx (Fin 30)"
      "\<lparr>startSec = Some (Fin 0), endSec = Some (Fin 3)\<rparr>"] r n a s b p
  show ?thesis
    by simp
qed

text \<open>
  Two scenes with a duration and no start: the resolver starts both at 0, the second not
  at the end of the first. And in the scene table, a scene after a scene without an end
  starts at the end of a scene further back, here before the scene that precedes it.
\<close>

theorem implicit_start_counterexample:
  "map data_time (composition_scenes (projr (loadVideoFileFromXml any_json implicit_doc)))
     = [Some \<lparr>startSec = Some (Fin 0), endSec = Some (Fin 5)\<rparr>,
        Some \<lparr>startSec = Some (Fin 0), endSec = Some (Fin 3)\<rparr>]
   \<and> map (\<lambda>t. (scene_start t, scene_end t))
        (table_scenes (projr (computeSceneTimings any_json gap_doc gap_doc)))
     = [(Fin 0, Some (Fin 5)), (Fin 7, None), (Fin 5, None)]"
  by code_simp


section \<open>Properties of the resolver on concrete compositions\<close>

text \<open>
  Claim C9. \<^verbatim>\<open>evalTimeAst\<close> divides frames by the frame rate of its context and
  milliseconds by 1000: at 25 frames per second \<^verbatim>\<open>24f\<close> is 0.96 and \<^verbatim>\<open>500ms\<close> is
  0.5. The frame rate of the context comes from \<^verbatim>\<open>parseNumber\<close>, which rejects the
  attribute value \<^verbatim>\<open>25\<close>: the composition keeps the default of 30 and \<^verbatim>\<open>24f\<close>
  resolves to 0.8.
\<close>

theorem fps_attribute_not_read: "loadVideoFileFromXml json fps25_doc =
     Inr \<lparr>composition_id = ''v'', meta_fps = Fin 30, meta_width = Fin 1280,
          meta_height = Fin 720, durationSeconds = None, posterTime = None,
          composition_voiceover = None,
          composition_scenes =
            [\<lparr>data_id = ''a'',
               data_time = Some \<lparr>startSec = Some (double (8 / 10)), endSec = Some (Fin (1 / 2))\<rparr>,
               data_items = [], data_layers = [], data_components = []\<rparr>]\<rparr>
   \<and> parseNumber (Some ''25'') = None
   \<and> parseTimeValue (baseCtx (Fin 25)) ''24f'' = Inr (double (96 / 100))
   \<and> parseTimeValue (baseCtx (Fin 25)) ''500ms'' = Inr (Fin (1 / 2))"
  by code_simp

text \<open>
  Claim C3. A composition with a single cue, \<^verbatim>\<open>c1\<close>, in scene \<^verbatim>\<open>A\<close>, followed by a
  component whose start refers to the later scene \<^verbatim>\<open>B\<close>. The first attempt at \<^verbatim>\<open>A\<close>
  ends in the unresolved reference with \<^verbatim>\<open>c1\<close> already in \<^verbatim>\<open>cueIds\<close>; the first pass
  resolves \<^verbatim>\<open>B\<close> and leaves \<^verbatim>\<open>A\<close> pending; the second attempt at \<^verbatim>\<open>A\<close> throws the
  duplicate-cue-id error, which is the result of the resolver.
\<close>

theorem cue_ids_survive_failed_pass:
  "distinct [''c1'']
   \<and> snd (try_scene json (Fin 30) cue_then_forward_scenes 0
            (initial_resolution cue_then_forward_scenes))
       = Inl (MissingTimeReference ''scene(B).start'')
   \<and> cueIds (fst (try_scene json (Fin 30) cue_then_forward_scenes 0
                  (initial_resolution cue_then_forward_scenes))) = {''c1''}
   \<and> (case resolve_pass json (Fin 30) cue_then_forward_scenes [0, 1]
              (initial_resolution cue_then_forward_scenes) False of
         Inl e \<Rightarrow> False
       | Inr r \<Rightarrow>
           snd r \<and> pending (fst r) = [0]
           \<and> snd (try_scene json (Fin 30) cue_then_forward_scenes 0 (fst r))
               = Inl (DuplicateCueId ''c1''))
   \<and> loadVideoFileFromXml json cue_then_forward_doc = Inl (DuplicateCueId ''c1'')"
  by code_simp

text \<open>
  Claim C1. The timing expressions of \<open>narrated_doc\<close> can be resolved in the order
  \<^verbatim>\<open>outro\<close>, \<^verbatim>\<open>intro\<close>: one pass in that order resolves both scenes with absolute
  start and end. The resolver, which tries \<^verbatim>\<open>intro\<close> first, fails on it with the
  duplicate-cue-id error although the composition has one cue.
\<close>

theorem satisfiable_order_rejected:
  "(case resolve_pass json (Fin 30) narrated_scenes [1, 0] (initial_resolution narrated_scenes) False of
      Inl e \<Rightarrow> False
    | Inr r \<Rightarrow>
        pending (fst r) = []
        \<and> map_option data_time (resolved (fst r) 0)
            = Some (Some \<lparr>startSec = Some (Fin 0), endSec = Some (Fin 10)\<rparr>)
        \<and> map_option data_time (resolved (fst r) 1)
            = Some (Some \<lparr>startSec = Some (Fin 10), endSec = Some (Fin 15)\<rparr>))
   \<and> loadVideoFileFromXml json narrated_doc = Inl (DuplicateCueId ''narration'')"
  by code_simp

text \<open>Two scenes that wait for each other's end: the error names both.\<close>

lemma cycle_names_both_scenes:
  "loadVideoFileFromXml json cycle_doc = Inl (UnresolvedTimeReferences [''A'', ''B''])
   \<and> unresolved_message (UnresolvedTimeReferences [''A'', ''B''])
       = ''Unresolved time references for scenes: A, B''"
  by code_simp

text \<open>A forward reference, a reference to the previous scene and a backward reference.\<close>

lemma mixed_order_resolves:
  "map_sum id (map data_time \<circ> composition_scenes) (loadVideoFileFromXml json mixed_doc) =
     Inr [Some \<lparr>startSec = Some (Fin 7), endSec = Some (Fin 9)\<rparr>,
          Some \<lparr>startSec = Some (Fin 0), endSec = Some (Fin 3)\<rparr>,
          Some \<lparr>startSec = Some (Fin 3), endSec = Some (Fin 7)\<rparr>]"
  by code_simp


section \<open>Properties of structural patches\<close>

lemma tagName_modify_at:
  "p \<noteq> [] \<Longrightarrow> tagName (modify_at f p el) = tagName el"
  by (cases el; cases p) simp_all

lemma tagName_modify_at_keep:
  "(\<And>x. tagName (f x) = tagName x) \<Longrightarrow> tagName (modify_at f p el) = tagName el"
  by (cases el; cases p) simp_all

lemma apply_patch_root_tag:
  assumes "apply_patch parseFragment enforceSealed p st = Inr st'"
  shows "tagName (walk_root st') = tagName (walk_root st)"
proof -
  have keep [simp]:
    "tagName (modify_at (insert_child n ix) pth el) = tagName el"
    "tagName (modify_at (remove_child k) pth el) = tagName el"
    "tagName (modify_at (setAttribute a v) pth el) = tagName el"
    "tagName (modify_at (removeAttribute a) pth el) = tagName el"
    "tagName (modify_at (set_textContent tx) pth el) = tagName el"
    for pth el n ix k a v tx
    by (rule tagName_modify_at_keep,
        simp add: insert_child_def remove_child_def setAttribute_def removeAttribute_def
          set_textContent_def)+
  show ?thesis
  proof (cases p)
    case (AppendNode parentId nodeXml index)
    with assms show ?thesis
      by (auto split: option.splits)
  next
    case (RemoveNode nodeId)
    with assms show ?thesis
      by (auto split: option.splits if_splits)
  next
    case (SetAttr nodeId name v)
    with assms show ?thesis
      by (auto split: option.splits)
  next
    case (SetText nodeId tx)
    with assms show ?thesis
      by (auto split: option.splits)
  next
    case (ReplaceSubtree nodeId nodeXml)
    with assms show ?thesis
      by (auto simp: tagName_modify_at split: option.splits if_splits)
  next
    case (SealScene sceneId)
    with assms show ?thesis
      by (auto split: option.splits if_splits)
  qed
qed

lemma apply_patches_root_tag:
  "apply_patches parseFragment enforceSealed ps st = Inr st'
     \<Longrightarrow> tagName (walk_root st') = tagName (walk_root st)"
proof (induction ps arbitrary: st)
  case Nil
  then show ?case by simp
next
  case (Cons p ps)
  then obtain st1 where s1: "apply_patch parseFragment enforceSealed p st = Inr st1"
    and rest: "apply_patches parseFragment enforceSealed ps st1 = Inr st'"
    by (auto split: sum.splits)
  from Cons.IH [OF rest] apply_patch_root_tag [OF s1] show ?case by simp
qed

lemma apply_patches_append:
  "apply_patches parseFragment enforceSealed (ps @ qs) st =
     (case apply_patches parseFragment enforceSealed ps st of
        Inl e \<Rightarrow> Inl e
      | Inr st' \<Rightarrow> apply_patches parseFragment enforceSealed qs st')"
  by (induction ps arbitrary: st) (auto split: sum.splits)

lemma sealed_target_below_root:
  assumes "findSceneAncestor rootEl pth = Some scene" and "tagName rootEl \<noteq> ''scene''"
  shows "pth \<noteq> []"
  using assms by (auto simp: findSceneAncestor_def)

lemma apply_patch_sealed:
  assumes "target_id p = Some t"
    and "findById t (walk_root st) = Some pth"
    and "findSceneAncestor (walk_root st) pth = Some scene"
    and "sealed_mark scene = Some ''true''"
    and "tagName (walk_root st) \<noteq> ''scene''"
  shows "apply_patch parseFragment True p st = Inl (SealedScene (sealed_name scene))"
proof -
  have below: "has_parent st pth"
    using sealed_target_below_root [OF assms(3,5)] by (simp add: has_parent_def)
  have sealed: "assertNotSealed True (walk_root st) pth = Some (SealedScene (sealed_name scene))"
    using assms(3,4) by (simp add: assertNotSealed_def)
  show ?thesis
    using assms(1,2) below sealed by (cases p) simp_all
qed

text \<open>
  Claim C10, amended. With enforcement on, after any patches that were applied, a
  structural patch is rejected when the scene that \<^verbatim>\<open>findSceneAncestor\<close> returns for its
  target (the target itself or its closest ancestor with tag \<^verbatim>\<open>scene\<close>) is marked
  sealed: the function throws the sealed-scene error with that scene's id (or
  \<^verbatim>\<open>unknown\<close>), whatever patches follow, and returns no document.
\<close>

theorem sealed_scene_patch_rejected:
  assumes "apply_patches parseFragment True ps \<lparr>walk_root = doc, held = Live\<rparr> = Inr st"
    and "tagName doc \<in> {''videoml'', ''video-ml'', ''vml''}"
    and "target_id p = Some t"
    and "findById t (walk_root st) = Some pth"
    and "findSceneAncestor (walk_root st) pth = Some scene"
    and "sealed_mark scene = Some ''true''"
  shows "applyVomPatchesInBrowser parseFragment doc (ps @ p # qs) True
           = Inl (SealedScene (sealed_name scene))"
proof -
  have "tagName (walk_root st) = tagName doc"
    using apply_patches_root_tag [OF assms(1)] by simp
  with assms(2) have "tagName (walk_root st) \<noteq> ''scene''"
    by auto
  from apply_patch_sealed [OF assms(3-6) this]
  have "apply_patch parseFragment True p st = Inl (SealedScene (sealed_name scene))" .
  then have "apply_patches parseFragment True (ps @ p # qs) \<lparr>walk_root = doc, held = Live\<rparr>
      = Inl (SealedScene (sealed_name scene))"
    using assms(1) by (simp add: apply_patches_append)
  then show ?thesis
    using assms(2) by (simp add: applyVomPatchesInBrowser_def)
qed

theorem sealed_scene_patch_rejected_witness:
  "apply_patches no_fragment True [SetAttr ''two'' ''title'' (Some ''x''), SealScene ''one'']
      \<lparr>walk_root = sealed_doc, held = Live\<rparr>
     = Inr \<lparr>walk_root = sealed_doc_after, held = Live\<rparr>
   \<and> findById ''t'' sealed_doc_after = Some [0, 0]
   \<and> map_option sealed_name (findSceneAncestor sealed_doc_after [0, 0]) = Some ''one''
   \<and> applyVomPatchesInBrowser no_fragment sealed_doc
        ([SetAttr ''two'' ''title'' (Some ''x''), SealScene ''one'']
         @ SetText ''t'' ''new'' # [RemoveNode ''two'']) True
       = Inl (SealedScene ''one'')"
proof -
  let ?scene = "Element ''scene'' [(''id'', ''one''), (''sealed'', ''true'')]
                  [Element ''title'' [(''id'', ''t'')] [] ''old''] []"
  have run: "apply_patches no_fragment True [SetAttr ''two'' ''title'' (Some ''x''), SealScene ''one'']
      \<lparr>walk_root = sealed_doc, held = Live\<rparr>
     = Inr \<lparr>walk_root = sealed_doc_after, held = Live\<rparr>"
    by code_simp
  have tag: "tagName sealed_doc \<in> {''videoml'', ''video-ml'', ''vml''}"
    by (simp add: sealed_doc_def)
  have tgt: "target_id (SetText ''t'' ''new'') = Some ''t''"
    by simp
  have found: "findById ''t'' (walk_root \<lparr>walk_root = sealed_doc_after, held = Live\<rparr>) = Some [0, 0]"
    by code_simp
  have anc: "findSceneAncestor (walk_root \<lparr>walk_root = sealed_doc_after, held = Live\<rparr>) [0, 0]
      = Some ?scene"
    by code_simp
  have mark: "sealed_mark ?scene = Some ''true''"
    by code_simp
  have name: "sealed_name ?scene = ''one''"
    by code_simp
  from sealed_scene_patch_rejected [OF run tag tgt found anc mark, of "[RemoveNode ''two'']"]
       run found anc name
  show ?thesis by simp
qed

theorem sealed_outer_scene_counterexample:
  "target_id (SetText ''t'' ''new'') = Some ''t''
   \<and> findById ''t'' nested_doc = Some [0, 0, 0]
   \<and> map (\<lambda>s. (sealed_name s, sealed_mark s)) (scenes_on_path nested_doc [0, 0, 0])
       = [(''outer'', Some ''true''), (''inner'', None)]
   \<and> applyVomPatchesInBrowser no_fragment nested_doc [SetText ''t'' ''new''] True
       = Inr (Some (Element ''vml'' [(''id'', ''v'')]
               [Element ''scene'' [(''id'', ''outer''), (''sealed'', ''true'')]
                  [Element ''scene'' [(''id'', ''inner'')]
                     [Element ''title'' [(''id'', ''t'')] [] ''new''] []] []] []))"
  by code_simp


section \<open>The recursion bound of the parser\<close>

lemma parseProperties_length:
  "parseProperties node ts = Inr r \<Longrightarrow> length (snd r) \<le> length ts"
  by (induction node ts rule: parseProperties.induct) auto

lemma parseProperties_fuel:
  "parseProperties node ts \<noteq> Inl OutOfFuel"
  by (induction node ts rule: parseProperties.induct) auto

lemma expect_close_length:
  "expect_close ts = Inr r \<Longrightarrow> length r < length ts"
  by (cases ts) (auto simp: expect_close_def peek_paren_def split: if_splits)

lemma expect_close_fuel: "expect_close ts \<noteq> Inl OutOfFuel"
  by (simp add: expect_close_def)

lemma finish_call_length:
  assumes "finish_call name a = Inr r"
  shows "length (snd r) < length (snd a)"
proof -
  from assms obtain rest where c: "expect_close (snd a) = Inr rest"
    and p: "parseProperties (Call name (fst a)) rest = Inr r"
    by (auto simp: finish_call_def split: sum.splits)
  from expect_close_length [OF c] parseProperties_length [OF p] show ?thesis by simp
qed

lemma finish_call_fuel: "finish_call name a \<noteq> Inl OutOfFuel"
proof (cases "expect_close (snd a)")
  case (Inl e)
  with expect_close_fuel [of "snd a"] show ?thesis by (simp add: finish_call_def)
next
  case (Inr rest)
  with parseProperties_fuel show ?thesis by (simp add: finish_call_def)
qed

lemma finish_group_length:
  assumes "finish_group a = Inr r"
  shows "length (snd r) < length (snd a)"
proof -
  from assms obtain rest where c: "expect_close (snd a) = Inr rest" and r: "r = (fst a, rest)"
    by (auto simp: finish_group_def split: sum.splits)
  from expect_close_length [OF c] r show ?thesis by simp
qed

lemma finish_group_fuel: "finish_group a \<noteq> Inl OutOfFuel"
proof (cases "expect_close (snd a)")
  case (Inl e)
  with expect_close_fuel [of "snd a"] show ?thesis by (simp add: finish_group_def)
next
  case (Inr rest)
  then show ?thesis by (simp add: finish_group_def)
qed

lemma peek_operator_Cons: "peek_operator ops ts \<Longrightarrow> ts \<noteq> []"
  by (auto simp: peek_operator_def)

lemma peek_paren_Cons: "peek_paren p ts \<Longrightarrow> ts \<noteq> []"
  by (auto simp: peek_paren_def)

lemma peek_comma_Cons: "peek_comma ts \<Longrightarrow> ts \<noteq> []"
  by (auto simp: peek_comma_def)

lemma parseExpression_step:
  assumes T: "\<And>ts. enough n 2 ts \<Longrightarrow> consumes (parseTerm n ts) ts"
    and EL: "\<And>ts node. enough n 0 ts \<Longrightarrow> keeps (parseExpressionLoop n node ts) ts"
    and h: "enough (Suc n) 3 ts"
  shows "consumes (parseExpression (Suc n) ts) ts"
proof -
  from h have "enough n 2 ts" by (simp add: enough_def)
  from T [OF this] have t: "consumes (parseTerm n ts) ts" .
  show ?thesis
  proof (cases "parseTerm n ts")
    case (Inl err)
    with t show ?thesis by (simp add: consumes_def)
  next
    case (Inr r)
    with t have len: "length (snd r) < length ts" by (simp add: consumes_def)
    with h have "enough n 0 (snd r)" by (simp add: enough_def)
    from EL [OF this, of "fst r"]
    have k: "keeps (parseExpressionLoop n (fst r) (snd r)) (snd r)" .
    have eq: "parseExpression (Suc n) ts = parseExpressionLoop n (fst r) (snd r)"
      using Inr by simp
    show ?thesis
      unfolding eq using k len by (auto simp: consumes_def keeps_def)
  qed
qed

lemma parseExpressionLoop_step:
  assumes T: "\<And>ts. enough n 2 ts \<Longrightarrow> consumes (parseTerm n ts) ts"
    and EL: "\<And>ts node. enough n 0 ts \<Longrightarrow> keeps (parseExpressionLoop n node ts) ts"
    and h: "enough (Suc n) 0 ts"
  shows "keeps (parseExpressionLoop (Suc n) node ts) ts"
proof (cases "peek_operator {Plus, Minus} ts")
  case False
  then show ?thesis by (simp add: keeps_def)
next
  case True
  then have "ts \<noteq> []" by (rule peek_operator_Cons)
  then have lt: "length (tl ts) < length ts" by (cases ts) simp_all
  with h have "enough n 2 (tl ts)" by (simp add: enough_def)
  from T [OF this] have t: "consumes (parseTerm n (tl ts)) (tl ts)" .
  show ?thesis
  proof (cases "parseTerm n (tl ts)")
    case (Inl err)
    with t have "err \<noteq> OutOfFuel" by (simp add: consumes_def)
    moreover have "parseExpressionLoop (Suc n) node ts = Inl err"
      using True Inl by simp
    ultimately show ?thesis by (simp add: keeps_def)
  next
    case (Inr r)
    with t have len: "length (snd r) < length (tl ts)" by (simp add: consumes_def)
    with h lt have "enough n 0 (snd r)" by (simp add: enough_def)
    from EL [OF this, of "Binary (operator_of ts) node (fst r)"]
    have k: "keeps (parseExpressionLoop n (Binary (operator_of ts) node (fst r)) (snd r)) (snd r)" .
    have eq: "parseExpressionLoop (Suc n) node ts
        = parseExpressionLoop n (Binary (operator_of ts) node (fst r)) (snd r)"
      using True Inr by simp
    show ?thesis
      unfolding eq using k len lt by (auto simp: keeps_def)
  qed
qed

lemma parseTerm_step:
  assumes U: "\<And>ts. enough n 1 ts \<Longrightarrow> consumes (parseUnary n ts) ts"
    and TL: "\<And>ts node. enough n 0 ts \<Longrightarrow> keeps (parseTermLoop n node ts) ts"
    and h: "enough (Suc n) 2 ts"
  shows "consumes (parseTerm (Suc n) ts) ts"
proof -
  from h have "enough n 1 ts" by (simp add: enough_def)
  from U [OF this] have u: "consumes (parseUnary n ts) ts" .
  show ?thesis
  proof (cases "parseUnary n ts")
    case (Inl err)
    with u show ?thesis by (simp add: consumes_def)
  next
    case (Inr r)
    with u have len: "length (snd r) < length ts" by (simp add: consumes_def)
    with h have "enough n 0 (snd r)" by (simp add: enough_def)
    from TL [OF this, of "fst r"]
    have k: "keeps (parseTermLoop n (fst r) (snd r)) (snd r)" .
    have eq: "parseTerm (Suc n) ts = parseTermLoop n (fst r) (snd r)"
      using Inr by simp
    show ?thesis
      unfolding eq using k len by (auto simp: consumes_def keeps_def)
  qed
qed

lemma parseTermLoop_step:
  assumes U: "\<And>ts. enough n 1 ts \<Longrightarrow> consumes (parseUnary n ts) ts"
    and TL: "\<And>ts node. enough n 0 ts \<Longrightarrow> keeps (parseTermLoop n node ts) ts"
    and h: "enough (Suc n) 0 ts"
  shows "keeps (parseTermLoop (Suc n) node ts) ts"
proof (cases "peek_operator {Times, Divide} ts")
  case False
  then show ?thesis by (simp add: keeps_def)
next
  case True
  then have "ts \<noteq> []" by (rule peek_operator_Cons)
  then have lt: "length (tl ts) < length ts" by (cases ts) simp_all
  with h have "enough n 1 (tl ts)" by (simp add: enough_def)
  from U [OF this] have u: "consumes (parseUnary n (tl ts)) (tl ts)" .
  show ?thesis
  proof (cases "parseUnary n (tl ts)")
    case (Inl err)
    with u have "err \<noteq> OutOfFuel" by (simp add: consumes_def)
    moreover have "parseTermLoop (Suc n) node ts = Inl err"
      using True Inl by simp
    ultimately show ?thesis by (simp add: keeps_def)
  next
    case (Inr r)
    with u have len: "length (snd r) < length (tl ts)" by (simp add: consumes_def)
    with h lt have "enough n 0 (snd r)" by (simp add: enough_def)
    from TL [OF this, of "Binary (operator_of ts) node (fst r)"]
    have k: "keeps (parseTermLoop n (Binary (operator_of ts) node (fst r)) (snd r)) (snd r)" .
    have eq: "parseTermLoop (Suc n) node ts
        = parseTermLoop n (Binary (operator_of ts) node (fst r)) (snd r)"
      using True Inr by simp
    show ?thesis
      unfolding eq using k len lt by (auto simp: keeps_def)
  qed
qed

lemma parseUnary_step:
  assumes U: "\<And>ts. enough n 1 ts \<Longrightarrow> consumes (parseUnary n ts) ts"
    and P: "\<And>ts. enough n 0 ts \<Longrightarrow> consumes (parsePrimary n ts) ts"
    and h: "enough (Suc n) 1 ts"
  shows "consumes (parseUnary (Suc n) ts) ts"
proof (cases "peek_operator {Plus, Minus} ts")
  case False
  from h have "enough n 0 ts" by (simp add: enough_def)
  from P [OF this] False show ?thesis by simp
next
  case True
  then have "ts \<noteq> []" by (rule peek_operator_Cons)
  then have lt: "length (tl ts) < length ts" by (cases ts) simp_all
  with h have "enough n 1 (tl ts)" by (simp add: enough_def)
  from U [OF this] have u: "consumes (parseUnary n (tl ts)) (tl ts)" .
  show ?thesis
  proof (cases "parseUnary n (tl ts)")
    case (Inl err)
    with u have "err \<noteq> OutOfFuel" by (simp add: consumes_def)
    moreover have "parseUnary (Suc n) ts = Inl err"
      using True Inl by simp
    ultimately show ?thesis by (simp add: consumes_def)
  next
    case (Inr r)
    with u have len: "length (snd r) < length (tl ts)" by (simp add: consumes_def)
    have eq: "parseUnary (Suc n) ts = Inr (Unary (operator_of ts) (fst r), snd r)"
      using True Inr by simp
    show ?thesis
      unfolding eq using len lt by (simp add: consumes_def)
  qed
qed

lemma parsePrimary_step:
  assumes E: "\<And>ts. enough n 3 ts \<Longrightarrow> consumes (parseExpression n ts) ts"
    and A: "\<And>ts. enough n 4 ts \<Longrightarrow> consumes (parseArgs n ts) ts"
    and h: "enough (Suc n) 0 ts"
  shows "consumes (parsePrimary (Suc n) ts) ts"
proof (cases ts)
  case Nil
  then show ?thesis by (simp add: consumes_def)
next
  case (Cons tok rest)
  show ?thesis
  proof (cases tok)
    case (TNumber v un)
    with Cons show ?thesis by (simp add: consumes_def)
  next
    case (TIdentifier name)
    show ?thesis
    proof (cases "peek_paren Open rest")
      case False
      then have eq: "parsePrimary (Suc n) ts = parseProperties (Identifier name) rest"
        using Cons TIdentifier by simp
      show ?thesis
        unfolding eq
        using parseProperties_length [of "Identifier name" rest]
          parseProperties_fuel [of "Identifier name" rest] Cons
        by (auto simp: consumes_def)
    next
      case True
      then have "rest \<noteq> []" by (rule peek_paren_Cons)
      then have lt: "length (tl rest) < length rest" by (cases rest) simp_all
      let ?args = "if peek_paren Close (tl rest) then Inr ([], tl rest) else parseArgs n (tl rest)"
      have args: "?args \<noteq> Inl OutOfFuel \<and> (\<forall>x. ?args = Inr x \<longrightarrow> length (snd x) \<le> length (tl rest))"
      proof (cases "peek_paren Close (tl rest)")
        case True
        then show ?thesis by simp
      next
        case False
        from h Cons lt have "enough n 4 (tl rest)"
          by (simp add: enough_def)
        from A [OF this] False show ?thesis by (auto simp: consumes_def)
      qed
      show ?thesis
      proof (cases ?args)
        case (Inl err)
        with args have "err \<noteq> OutOfFuel" by simp
        moreover have "parsePrimary (Suc n) ts = Inl err"
          using Cons TIdentifier True Inl by simp
        ultimately show ?thesis by (simp add: consumes_def)
      next
        case (Inr r)
        with args have len: "length (snd r) \<le> length (tl rest)" by simp
        have eq: "parsePrimary (Suc n) ts = finish_call name r"
          using Cons TIdentifier True Inr by simp
        show ?thesis
          unfolding eq
          using finish_call_length [of name r] finish_call_fuel [of name r] len lt Cons
          by (auto simp: consumes_def)
      qed
    qed
  next
    case (TOperator op)
    with Cons show ?thesis by (simp add: consumes_def)
  next
    case (TParen pr)
    show ?thesis
    proof (cases "pr = Open")
      case False
      with Cons TParen show ?thesis by (simp add: consumes_def)
    next
      case True
      from h Cons have "enough n 3 rest" by (simp add: enough_def)
      from E [OF this] have ex: "consumes (parseExpression n rest) rest" .
      show ?thesis
      proof (cases "parseExpression n rest")
        case (Inl err)
        with ex have "err \<noteq> OutOfFuel" by (simp add: consumes_def)
        moreover have "parsePrimary (Suc n) ts = Inl err"
          using Cons TParen True Inl by simp
        ultimately show ?thesis by (simp add: consumes_def)
      next
        case (Inr r)
        with ex have len: "length (snd r) < length rest" by (simp add: consumes_def)
        have eq: "parsePrimary (Suc n) ts = finish_group r"
          using Cons TParen True Inr by simp
        show ?thesis
          unfolding eq
          using finish_group_length [of r] finish_group_fuel [of r] len Cons
          by (auto simp: consumes_def)
      qed
    qed
  next
    case TDot
    with Cons show ?thesis by (simp add: consumes_def)
  next
    case TComma
    with Cons show ?thesis by (simp add: consumes_def)
  qed
qed

lemma parseArgs_step:
  assumes E: "\<And>ts. enough n 3 ts \<Longrightarrow> consumes (parseExpression n ts) ts"
    and A: "\<And>ts. enough n 4 ts \<Longrightarrow> consumes (parseArgs n ts) ts"
    and h: "enough (Suc n) 4 ts"
  shows "consumes (parseArgs (Suc n) ts) ts"
proof -
  from h have "enough n 3 ts" by (simp add: enough_def)
  from E [OF this] have ex: "consumes (parseExpression n ts) ts" .
  show ?thesis
  proof (cases "parseExpression n ts")
    case (Inl err)
    with ex show ?thesis by (simp add: consumes_def)
  next
    case (Inr r)
    with ex have len: "length (snd r) < length ts" by (simp add: consumes_def)
    show ?thesis
    proof (cases "peek_comma (snd r)")
      case False
      with Inr len show ?thesis by (simp add: consumes_def)
    next
      case True
      then have "snd r \<noteq> []" by (rule peek_comma_Cons)
      then have lt: "length (tl (snd r)) < length (snd r)" by (cases "snd r") simp_all
      with h len have "enough n 4 (tl (snd r))" by (simp add: enough_def)
      from A [OF this] have a: "consumes (parseArgs n (tl (snd r))) (tl (snd r))" .
      show ?thesis
      proof (cases "parseArgs n (tl (snd r))")
        case (Inl err)
        with a have "err \<noteq> OutOfFuel" by (simp add: consumes_def)
        moreover have "parseArgs (Suc n) ts = Inl err"
          using \<open>parseExpression n ts = Inr r\<close> True Inl by simp
        ultimately show ?thesis by (simp add: consumes_def)
      next
        case (Inr r')
        with a have len': "length (snd r') < length (tl (snd r))" by (simp add: consumes_def)
        have eq: "parseArgs (Suc n) ts = Inr (fst r # fst r', snd r')"
          using \<open>parseExpression n ts = Inr r\<close> True Inr by simp
        show ?thesis
          unfolding eq using len len' lt by (simp add: consumes_def)
      qed
    qed
  qed
qed

lemma parser_fuel:
  "(\<forall>ts. enough n 3 ts \<longrightarrow> consumes (parseExpression n ts) ts)
   \<and> (\<forall>ts node. enough n 0 ts \<longrightarrow> keeps (parseExpressionLoop n node ts) ts)
   \<and> (\<forall>ts. enough n 2 ts \<longrightarrow> consumes (parseTerm n ts) ts)
   \<and> (\<forall>ts node. enough n 0 ts \<longrightarrow> keeps (parseTermLoop n node ts) ts)
   \<and> (\<forall>ts. enough n 1 ts \<longrightarrow> consumes (parseUnary n ts) ts)
   \<and> (\<forall>ts. enough n 0 ts \<longrightarrow> consumes (parsePrimary n ts) ts)
   \<and> (\<forall>ts. enough n 4 ts \<longrightarrow> consumes (parseArgs n ts) ts)"
proof (induction n)
  case 0
  show ?case by (simp add: enough_def)
next
  case (Suc n)
  from Suc have E: "\<And>ts. enough n 3 ts \<Longrightarrow> consumes (parseExpression n ts) ts"
    by simp
  from Suc have EL: "\<And>ts node. enough n 0 ts \<Longrightarrow> keeps (parseExpressionLoop n node ts) ts"
    by simp
  from Suc have T: "\<And>ts. enough n 2 ts \<Longrightarrow> consumes (parseTerm n ts) ts"
    by simp
  from Suc have TL: "\<And>ts node. enough n 0 ts \<Longrightarrow> keeps (parseTermLoop n node ts) ts"
    by simp
  from Suc have U: "\<And>ts. enough n 1 ts \<Longrightarrow> consumes (parseUnary n ts) ts"
    by simp
  from Suc have P: "\<And>ts. enough n 0 ts \<Longrightarrow> consumes (parsePrimary n ts) ts"
    by simp
  from Suc have A: "\<And>ts. enough n 4 ts \<Longrightarrow> consumes (parseArgs n ts) ts"
    by simp
  show ?case
    using parseExpression_step [OF T EL] parseExpressionLoop_step [OF T EL]
      parseTerm_step [OF U TL] parseTermLoop_step [OF U TL] parseUnary_step [OF U P]
      parsePrimary_step [OF E A] parseArgs_step [OF E A]
    by (intro conjI allI impI)
qed

lemma tokenizeTime_fuel: "tokenizeTime s \<noteq> Inl OutOfFuel"
proof (induction "length s" arbitrary: s rule: less_induct)
  case less
  show ?case
  proof (cases s)
    case Nil
    then show ?thesis by simp
  next
    case (Cons ch rest)
    have m: "map_sum id f x \<noteq> Inl OutOfFuel" if "x \<noteq> Inl OutOfFuel"
      for f :: "token list \<Rightarrow> token list" and x
      using that by (cases x) simp_all
    have r: "tokenizeTime rest \<noteq> Inl OutOfFuel"
      using less [of rest] Cons by simp
    have n: "tokenizeTime (snd (lex_number ch rest)) \<noteq> Inl OutOfFuel"
      using less [of "snd (lex_number ch rest)"] lex_number_length [of ch rest] Cons by simp
    have i: "tokenizeTime (snd (lex_identifier ch rest)) \<noteq> Inl OutOfFuel"
      using less [of "snd (lex_identifier ch rest)"] lex_identifier_length [of ch rest] Cons by simp
    show ?thesis
      unfolding Cons tokenizeTime.simps using r n i by (simp add: m)
  qed
qed

theorem parseTimeExpression_fuel: "parseTimeExpression input \<noteq> Inl OutOfFuel"
proof (cases "tokenizeTime input")
  case (Inl e)
  with tokenizeTime_fuel [of input] show ?thesis
    by (simp add: parseTimeExpression_def)
next
  case (Inr tokens)
  have "enough (6 * length tokens + 4) 3 tokens" by (simp add: enough_def)
  with parser_fuel [of "6 * length tokens + 4"]
  have c: "consumes (parseExpression (6 * length tokens + 4) tokens) tokens" by blast
  show ?thesis
  proof (cases "parseExpression (6 * length tokens + 4) tokens")
    case (Inl e)
    with c have "e \<noteq> OutOfFuel" by (simp add: consumes_def)
    with Inl \<open>tokenizeTime input = Inr tokens\<close> show ?thesis
      by (simp add: parseTimeExpression_def)
  next
    case (Inr r)
    with \<open>tokenizeTime input = Inr tokens\<close> show ?thesis
      by (simp add: parseTimeExpression_def)
  qed
qed

section \<open>Where the errors of the resolver come from\<close>

lemma avoids_Inr: "avoids B (Inr x)"
  by (simp add: avoids_def)

lemma avoids_Inl: "e \<notin> B \<Longrightarrow> avoids B (Inl e)"
  by (simp add: avoids_def)

lemma avoids_bind:
  "avoids B r \<Longrightarrow> (\<And>x. avoids B (f x)) \<Longrightarrow> avoids B (case r of Inl e \<Rightarrow> Inl e | Inr x \<Rightarrow> f x)"
  by (cases r) (simp_all add: avoids_def)

lemma avoids_map_sum: "avoids B r \<Longrightarrow> avoids B (map_sum id f r)"
  by (cases r) (simp_all add: avoids_def)

lemma avoids_if: "avoids B a \<Longrightarrow> avoids B b \<Longrightarrow> avoids B (if c then a else b)"
  by simp

lemma avoids_option:
  "avoids B a \<Longrightarrow> (\<And>x. avoids B (f x)) \<Longrightarrow> avoids B (case v of None \<Rightarrow> a | Some x \<Rightarrow> f x)"
  by (cases v) simp_all

lemma avoids_prod: "(\<And>a b. avoids B (f a b)) \<Longrightarrow> avoids B (case p of (a, b) \<Rightarrow> f a b)"
  by (cases p) simp

lemma avoids_mono: "avoids B r \<Longrightarrow> A \<subseteq> B \<Longrightarrow> avoids A r"
  by (cases r) (auto simp: avoids_def)

lemmas avoids_intros =
  avoids_Inr avoids_bind avoids_map_sum avoids_if avoids_option avoids_prod

lemma leaf_errors [simp]:
  "MissingTimeReference s \<notin> foreign" "UnexpectedCharacter c \<notin> foreign" "UnexpectedEnd \<notin> foreign"
  "ExpectedClosingParen \<notin> foreign" "ExpectedPropertyName \<notin> foreign"
  "InvalidTimeExpression \<notin> foreign" "UnexpectedToken \<notin> foreign"
  "TimelineRequiresProperty \<notin> foreign" "UnknownIdentifier s \<notin> foreign"
  "RequiresAtLeast2 s \<notin> foreign" "ClampRequires3 \<notin> foreign" "SnapRequires2 \<notin> foreign"
  "SceneRequiresIdentifier \<notin> foreign" "CueRequiresIdentifier \<notin> foreign"
  "UnknownFunction s \<notin> foreign" "UnsupportedProperty s \<notin> foreign"
  "TimingRequiresStart s \<notin> foreign" "PauseRequires \<notin> foreign" "CueRequiresId \<notin> foreign"
  "SceneRequiresId \<notin> foreign" "LayerRequiresId \<notin> foreign"
  "JsonSyntaxError \<notin> foreign" "TypeError \<notin> foreign"
  by (auto simp: foreign_def loop_failures_def)

lemma outer_foreign [simp]: "e \<notin> foreign \<Longrightarrow> e \<notin> outer_failures"
  by (auto simp: foreign_def loop_failures_def outer_failures_def)

lemma leaf_errors_outer [simp]:
  "DuplicateCueId s \<notin> outer_failures" "SceneRequiresId \<notin> outer_failures"
  "TypeError \<notin> outer_failures" "JsonSyntaxError \<notin> outer_failures"
  by (auto simp: outer_failures_def)

lemma leaf_errors_loop [simp]:
  "OutOfFuel \<notin> loop_failures" "UnexpectedEnd \<notin> loop_failures"
  "ExpectedClosingParen \<notin> loop_failures" "ExpectedPropertyName \<notin> loop_failures"
  "InvalidTimeExpression \<notin> loop_failures" "UnexpectedToken \<notin> loop_failures"
  "UnexpectedCharacter c \<notin> loop_failures"
  by (auto simp: loop_failures_def)

lemma parseProperties_avoids: "avoids loop_failures (parseProperties node ts)"
  by (induction node ts rule: parseProperties.induct) (simp_all add: avoids_def)

lemma expect_close_avoids: "avoids loop_failures (expect_close ts)"
  by (simp add: expect_close_def avoids_def)

lemma finish_call_avoids: "avoids loop_failures (finish_call name a)"
  unfolding finish_call_def
  by (intro avoids_intros expect_close_avoids parseProperties_avoids)

lemma finish_group_avoids: "avoids loop_failures (finish_group a)"
  unfolding finish_group_def
  by (intro avoids_intros expect_close_avoids)

lemma parser_avoids:
  "(\<forall>ts. avoids loop_failures (parseExpression n ts))
   \<and> (\<forall>ts node. avoids loop_failures (parseExpressionLoop n node ts))
   \<and> (\<forall>ts. avoids loop_failures (parseTerm n ts))
   \<and> (\<forall>ts node. avoids loop_failures (parseTermLoop n node ts))
   \<and> (\<forall>ts. avoids loop_failures (parseUnary n ts))
   \<and> (\<forall>ts. avoids loop_failures (parsePrimary n ts))
   \<and> (\<forall>ts. avoids loop_failures (parseArgs n ts))"
proof (induction n)
  case 0
  show ?case by (simp add: avoids_def)
next
  case (Suc n)
  from Suc have E: "\<And>ts. avoids loop_failures (parseExpression n ts)" by simp
  from Suc have EL: "\<And>ts node. avoids loop_failures (parseExpressionLoop n node ts)" by simp
  from Suc have T: "\<And>ts. avoids loop_failures (parseTerm n ts)" by simp
  from Suc have TL: "\<And>ts node. avoids loop_failures (parseTermLoop n node ts)" by simp
  from Suc have U: "\<And>ts. avoids loop_failures (parseUnary n ts)" by simp
  from Suc have P: "\<And>ts. avoids loop_failures (parsePrimary n ts)" by simp
  from Suc have A: "\<And>ts. avoids loop_failures (parseArgs n ts)" by simp
  have e: "avoids loop_failures (parseExpression (Suc n) ts)" for ts
    unfolding parseExpression.simps by (intro avoids_intros T EL)
  have el: "avoids loop_failures (parseExpressionLoop (Suc n) node ts)" for ts node
    unfolding parseExpressionLoop.simps by (intro avoids_intros T EL)
  have t: "avoids loop_failures (parseTerm (Suc n) ts)" for ts
    unfolding parseTerm.simps by (intro avoids_intros U TL)
  have tl: "avoids loop_failures (parseTermLoop (Suc n) node ts)" for ts node
    unfolding parseTermLoop.simps by (intro avoids_intros U TL)
  have u: "avoids loop_failures (parseUnary (Suc n) ts)" for ts
    unfolding parseUnary.simps by (intro avoids_intros U P)
  have a: "avoids loop_failures (parseArgs (Suc n) ts)" for ts
    unfolding parseArgs.simps by (intro avoids_intros E A)
  have p: "avoids loop_failures (parsePrimary (Suc n) ts)" for ts
  proof (cases ts)
    case Nil
    then show ?thesis by (simp add: avoids_def)
  next
    case (Cons tok rest)
    show ?thesis
    proof (cases tok)
      case (TNumber v un)
      with Cons show ?thesis by (simp add: avoids_def)
    next
      case (TIdentifier name)
      have "avoids loop_failures (parsePrimary (Suc n) (TIdentifier name # rest))"
        unfolding parsePrimary.simps
        by (intro avoids_intros A finish_call_avoids parseProperties_avoids)
      with Cons TIdentifier show ?thesis by simp
    next
      case (TOperator op)
      with Cons show ?thesis by (simp add: avoids_def)
    next
      case (TParen pr)
      have "avoids loop_failures (parsePrimary (Suc n) (TParen pr # rest))"
        unfolding parsePrimary.simps
        by (intro avoids_intros avoids_Inl E finish_group_avoids) simp
      with Cons TParen show ?thesis by simp
    next
      case TDot
      with Cons show ?thesis by (simp add: avoids_def)
    next
      case TComma
      with Cons show ?thesis by (simp add: avoids_def)
    qed
  qed
  from e el t tl u p a show ?case by blast
qed

lemma tokenizeTime_avoids: "avoids loop_failures (tokenizeTime s)"
proof (induction "length s" arbitrary: s rule: less_induct)
  case less
  show ?case
  proof (cases s)
    case Nil
    then show ?thesis by (simp add: avoids_def)
  next
    case (Cons ch rest)
    have r: "avoids loop_failures (tokenizeTime rest)"
      using less [of rest] Cons by simp
    have n: "avoids loop_failures (tokenizeTime (snd (lex_number ch rest)))"
      using less [of "snd (lex_number ch rest)"] lex_number_length [of ch rest] Cons by simp
    have i: "avoids loop_failures (tokenizeTime (snd (lex_identifier ch rest)))"
      using less [of "snd (lex_identifier ch rest)"] lex_identifier_length [of ch rest] Cons by simp
    show ?thesis
      unfolding Cons tokenizeTime.simps
      by (intro avoids_intros avoids_Inl r n i) simp
  qed
qed

lemma parseTimeExpression_avoids: "avoids foreign (parseTimeExpression input)"
proof (cases "parseTimeExpression input")
  case (Inr expr)
  then show ?thesis by (simp add: avoids_def)
next
  case (Inl e)
  have "avoids loop_failures (parseTimeExpression input)"
    unfolding parseTimeExpression_def
    using parser_avoids
    by (intro avoids_intros avoids_Inl tokenizeTime_avoids) auto
  with Inl have "e \<notin> loop_failures" by (simp add: avoids_def)
  moreover from Inl parseTimeExpression_fuel [of input] have "e \<noteq> OutOfFuel" by auto
  ultimately show ?thesis using Inl by (simp add: avoids_def foreign_def)
qed

lemma require_avoids: "avoids foreign (require ref v)"
  by (cases v) (simp_all add: require_def avoids_def)

lemma eval_property_avoids: "avoids foreign (eval_property ctx target prop)"
  unfolding eval_property_def
  by (cases target) (auto intro!: avoids_intros avoids_Inl require_avoids)

lemma evalArgs_avoids_aux:
  "(\<And>a. a \<in> set args \<Longrightarrow> avoids foreign (evalTimeAst ctx a))
     \<Longrightarrow> avoids foreign (evalArgs ctx args)"
proof (induction args)
  case Nil
  show ?case by (simp add: avoids_def)
next
  case (Cons a as)
  have "avoids foreign (evalTimeAst ctx a)" by (rule Cons.prems) simp
  moreover have "avoids foreign (evalArgs ctx as)"
    by (rule Cons.IH) (simp add: Cons.prems)
  ultimately show ?case
    unfolding evalArgs.simps by (intro avoids_intros)
qed

lemma evalTimeAst_avoids: "avoids foreign (evalTimeAst ctx node)"
proof (induction node)
  case (Number v u)
  show ?case by (simp add: avoids_def)
next
  case (Identifier v)
  show ?case by (simp add: avoids_def)
next
  case (Binary op l r)
  then show ?case
    unfolding evalTimeAst.simps by (intro avoids_intros)
next
  case (Unary op v)
  then show ?case
    unfolding evalTimeAst.simps by (intro avoids_intros)
next
  case (Call name args)
  then have "avoids foreign (evalArgs ctx args)"
    by (intro evalArgs_avoids_aux)
  then show ?case
    unfolding evalTimeAst.simps
    by (intro avoids_intros avoids_Inl require_avoids) simp_all
next
  case (Property target pr)
  show ?case by (simp add: eval_property_avoids)
qed

lemma parseTimeValue_avoids: "avoids foreign (parseTimeValue ctx v)"
  unfolding parseTimeValue_def
  by (intro avoids_intros parseTimeExpression_avoids evalTimeAst_avoids)

lemma optTimeValue_avoids: "avoids foreign (optTimeValue ctx raw)"
  unfolding optTimeValue_def
  by (intro avoids_intros parseTimeValue_avoids)

lemma parseTiming_avoids: "avoids foreign (parseTiming ctx el)"
  unfolding parseTiming_def Let_def
  by (intro avoids_intros optTimeValue_avoids)

lemma parseTimeRange_avoids: "avoids foreign (parseTimeRange ctx el label)"
  unfolding parseTimeRange_def Let_def
  by (intro avoids_intros avoids_Inl optTimeValue_avoids) simp

lemma parseContainerTiming_avoids: "avoids foreign (parseContainerTiming ctx el)"
  unfolding parseContainerTiming_def Let_def
  by (intro avoids_intros optTimeValue_avoids)

lemma parsePause_avoids: "avoids foreign (parsePause ctx el)"
  unfolding parsePause_def
  by (intro avoids_intros avoids_Inl optTimeValue_avoids) simp

lemma cue_children_avoids: "avoids foreign (cue_children ctx els acc)"
proof (induction els arbitrary: acc)
  case Nil
  show ?case by (simp add: avoids_def)
next
  case (Cons child rest)
  obtain segs buls where acc: "acc = (segs, buls)" by (cases acc)
  show ?case
    unfolding acc cue_children.simps Let_def
    by (intro avoids_intros Cons.IH optTimeValue_avoids parsePause_avoids)
qed

lemma parseCue_avoids: "avoids foreign (parseCue ctx el)"
  unfolding parseCue_def
  by (intro avoids_intros avoids_Inl parseTimeRange_avoids cue_children_avoids) simp_all

lemma parseComponentElement_avoids:
  "avoids foreign (parseComponentElement json ctx el componentIndex timingOverride)"
  unfolding parseComponentElement_def
  by (intro avoids_intros avoids_Inl parseTiming_avoids) simp_all

lemma container_leaf_avoids:
  "avoids foreign (container_leaf json ctx containerStart fl child componentIndex cursor)"
  unfolding container_leaf_def Let_def
  by (intro avoids_intros optTimeValue_avoids parseComponentElement_avoids)

lemma container_loop_avoids_aux:
  "(\<And>c idx start fl'. c \<in> set els
       \<Longrightarrow> avoids foreign (parseContainerChildren json ctx c idx start fl'))
     \<Longrightarrow> avoids foreign (container_loop json ctx els containerStart fl acc)"
proof (induction els arbitrary: acc)
  case Nil
  show ?case by (simp add: avoids_def)
next
  case (Cons child rest)
  obtain comps idx cursor maxEnd where acc: "acc = (comps, idx, cursor, maxEnd)"
    by (cases acc) auto
  have nested: "avoids foreign (parseContainerChildren json ctx child i s f)" for i s f
    by (rule Cons.prems) simp
  have loop: "avoids foreign (container_loop json ctx rest containerStart fl a)" for a
    by (rule Cons.IH) (simp add: Cons.prems)
  show ?case
    unfolding acc container_loop.simps
    by (intro avoids_intros nested loop parseContainerTiming_avoids container_leaf_avoids)
qed

lemma parseContainerChildren_avoids:
  "avoids foreign (parseContainerChildren json ctx el componentIndex containerStart fl)"
proof (induction el arbitrary: componentIndex containerStart fl)
  case (Element tg attrs cs tx)
  have "avoids foreign (container_loop json ctx cs containerStart fl a)" for a
    by (rule container_loop_avoids_aux) (rule Element)
  then show ?case
    unfolding parseContainerChildren.simps
    by (intro avoids_intros avoids_Inl) simp_all
qed

lemma container_or_component_avoids:
  "avoids foreign (container_or_component json ctx child componentIndex)"
  unfolding container_or_component_def
  by (intro avoids_intros parseContainerTiming_avoids parseContainerChildren_avoids
      parseComponentElement_avoids)

lemma layer_children_avoids: "avoids foreign (layer_children json ctx els acc)"
proof (induction els arbitrary: acc)
  case Nil
  show ?case by (simp add: avoids_def)
next
  case (Cons layerChild rest)
  obtain comps idx where acc: "acc = (comps, idx)" by (cases acc)
  show ?case
    unfolding acc layer_children.simps
    by (intro avoids_intros Cons.IH container_or_component_avoids)
qed

lemma parseLayer_avoids: "avoids foreign (parseLayer json ctx child)"
  unfolding parseLayer_def
  by (intro avoids_intros avoids_Inl parseTiming_avoids layer_children_avoids) simp_all

lemma scene_children_avoids: "avoids outer_failures (snd (scene_children json ctx els st acc))"
proof (induction els arbitrary: st acc)
  case Nil
  show ?case by (simp add: avoids_def)
next
  case (Cons child rest)
  obtain items layers components componentIndex
    where acc: "acc = (items, layers, components, componentIndex)"
    by (cases acc) auto
  have leaf: "avoids outer_failures (snd (s, Inl e))" if "avoids foreign (Inl e :: error + 'x)"
    for s :: resolution and e
    using that by (simp add: avoids_def)
  show ?case
  proof (cases "tagName child = ''cue''")
    case True
    show ?thesis
    proof (cases "parseCue (ctx st) child")
      case (Inl e)
      with parseCue_avoids [of "ctx st" child] True show ?thesis
        unfolding acc by (simp add: avoids_def)
    next
      case (Inr c)
      with True Cons.IH show ?thesis
        unfolding acc by (simp add: avoids_def)
    qed
  next
    case False
    note not_cue = this
    show ?thesis
    proof (cases "tagName child = ''pause''")
      case True
      show ?thesis
      proof (cases "parsePause (ctx st) child")
        case (Inl e)
        with parsePause_avoids [of "ctx st" child] True not_cue show ?thesis
          unfolding acc by (simp add: avoids_def)
      next
        case (Inr p)
        with True not_cue Cons.IH show ?thesis
          unfolding acc by simp
      qed
    next
      case False
      note not_pause = this
      show ?thesis
      proof (cases "tagName child = ''layer''")
        case True
        show ?thesis
        proof (cases "parseLayer json (ctx st) child")
          case (Inl e)
          with parseLayer_avoids [of json "ctx st" child] True not_cue not_pause show ?thesis
            unfolding acc by (simp add: avoids_def)
        next
          case (Inr l)
          with True not_cue not_pause Cons.IH show ?thesis
            unfolding acc by simp
        qed
      next
        case False
        show ?thesis
        proof (cases "container_or_component json (ctx st) child componentIndex")
          case (Inl e)
          with container_or_component_avoids [of json "ctx st" child componentIndex]
            False not_cue not_pause
          show ?thesis
            unfolding acc by (simp add: avoids_def)
        next
          case (Inr r)
          with False not_cue not_pause Cons.IH show ?thesis
            unfolding acc by simp
        qed
      qed
    qed
  qed
qed

lemma try_scene_avoids: "avoids outer_failures (snd (try_scene json fps' els index st))"
proof -
  let ?ctx = "scene_context fps' els index"
  let ?sc = "scene_children json ?ctx (children (els ! index)) st ([], [], [], 0)"
  have sc: "avoids outer_failures (snd ?sc)" by (rule scene_children_avoids)
  show ?thesis
  proof (cases "length els \<le> index \<or> \<not> truthyAttr (els ! index) ''id''")
    case True
    then show ?thesis by (auto simp: try_scene_def Let_def avoids_def)
  next
    case False
    show ?thesis
    proof (cases "parseTiming (?ctx st) (els ! index)")
      case (Inl e)
      with parseTiming_avoids [of "?ctx st" "els ! index"] False show ?thesis
        by (simp add: try_scene_def Let_def avoids_def)
    next
      case (Inr sceneTiming)
      obtain st1 r where eq: "?sc = (st1, r)" by (cases ?sc) auto
      with sc have r: "avoids outer_failures r" by simp
      show ?thesis
      proof (cases r)
        case (Inl e)
        with r eq False \<open>parseTiming (?ctx st) (els ! index) = Inr sceneTiming\<close> show ?thesis
          by (simp add: try_scene_def Let_def avoids_def)
      next
        case (Inr acc)
        obtain items layers components componentIndex
          where acc: "acc = (items, layers, components, componentIndex)"
          by (cases acc) auto
        with Inr eq False \<open>parseTiming (?ctx st) (els ! index) = Inr sceneTiming\<close> show ?thesis
          by (simp add: try_scene_def Let_def avoids_def)
      qed
    qed
  qed
qed

section \<open>The outcomes of the resolver loop\<close>

lemma failed_with:
  "(case r of Inl e \<Rightarrow> e = x | Inr y \<Rightarrow> False) \<Longrightarrow> r = Inl x"
  by (cases r) simp_all

lemma resolve_pass_error:
  "resolve_pass json fps' els idxs st p = Inl e
     \<Longrightarrow> e \<notin> outer_failures \<and> (\<forall>ref. e \<noteq> MissingTimeReference ref)"
proof (induction idxs arbitrary: st p)
  case Nil
  then show ?case by simp
next
  case (Cons index rest)
  obtain st1 r where ts: "try_scene json fps' els index st = (st1, r)"
    by (cases "try_scene json fps' els index st") auto
  have av: "avoids outer_failures r"
    using try_scene_avoids [of json fps' els index st] ts by simp
  show ?case
  proof (cases r)
    case (Inr sd)
    with Cons.prems ts
    have "resolve_pass json fps' els rest (commit_scene index sd st1) True = Inl e"
      by simp
    from Cons.IH [OF this] show ?thesis .
  next
    case (Inl err)
    show ?thesis
    proof (cases "\<exists>ref. err = MissingTimeReference ref")
      case True
      with Cons.prems ts Inl
      have "resolve_pass json fps' els rest st1 p = Inl e"
        by auto
      from Cons.IH [OF this] show ?thesis .
    next
      case False
      with Cons.prems ts Inl have "e = err"
        by (cases err) simp_all
      with False av Inl show ?thesis
        by (simp add: avoids_def)
    qed
  qed
qed

lemma resolve_pass_no_progress:
  "resolve_pass json fps' els idxs st False = Inr (st', False) \<Longrightarrow> pending st' = pending st"
proof (induction idxs arbitrary: st)
  case Nil
  then show ?case by simp
next
  case (Cons index rest)
  obtain st1 r where ts: "try_scene json fps' els index st = (st1, r)"
    by (cases "try_scene json fps' els index st") auto
  have p1: "pending st1 = pending st"
    using try_scene_pending [of json fps' els index st] ts by simp
  have flag: "resolve_pass json fps' els xs s True \<noteq> Inr (s', False)" for xs s s'
  proof (induction xs arbitrary: s)
    case Nil
    show ?case by simp
  next
    case (Cons x xs)
    obtain s1 r1 where t: "try_scene json fps' els x s = (s1, r1)"
      by (cases "try_scene json fps' els x s") auto
    show ?case
    proof (cases r1)
      case (Inr sd)
      with t Cons show ?thesis by simp
    next
      case (Inl err)
      with t Cons show ?thesis by (cases err) simp_all
    qed
  qed
  show ?case
  proof (cases r)
    case (Inr sd)
    with Cons.prems ts flag show ?thesis by simp
  next
    case (Inl err)
    show ?thesis
    proof (cases "\<exists>ref. err = MissingTimeReference ref")
      case True
      with Cons.prems ts Inl
      have "resolve_pass json fps' els rest st1 False = Inr (st', False)"
        by auto
      from Cons.IH [OF this] p1 show ?thesis by simp
    next
      case False
      with Cons.prems ts Inl show ?thesis
        by (cases err) simp_all
    qed
  qed
qed

lemma resolve_pass_thrower:
  "resolve_pass json fps' els idxs st p = Inl e
     \<Longrightarrow> \<exists>index \<in> set idxs. \<exists>s. snd (try_scene json fps' els index s) = Inl e"
proof (induction idxs arbitrary: st p)
  case Nil
  then show ?case by simp
next
  case (Cons index rest)
  obtain st1 r where ts: "try_scene json fps' els index st = (st1, r)"
    by (cases "try_scene json fps' els index st") auto
  show ?case
  proof (cases r)
    case (Inr sd)
    with Cons.prems ts
    have "resolve_pass json fps' els rest (commit_scene index sd st1) True = Inl e"
      by simp
    from Cons.IH [OF this] show ?thesis by auto
  next
    case (Inl err)
    show ?thesis
    proof (cases "\<exists>ref. err = MissingTimeReference ref")
      case True
      with Cons.prems ts Inl
      have "resolve_pass json fps' els rest st1 p = Inl e"
        by auto
      from Cons.IH [OF this] show ?thesis by auto
    next
      case False
      with Cons.prems ts Inl have "e = err"
        by (cases err) simp_all
      with ts Inl have "snd (try_scene json fps' els index st) = Inl e" by simp
      then show ?thesis by auto
    qed
  qed
qed

lemma resolve_pass_flag:
  "resolve_pass json fps' els xs s True \<noteq> Inr (s', False)"
proof (induction xs arbitrary: s)
  case Nil
  show ?case by simp
next
  case (Cons x xs)
  obtain s1 r1 where t: "try_scene json fps' els x s = (s1, r1)"
    by (cases "try_scene json fps' els x s") auto
  show ?case
  proof (cases r1)
    case (Inr sd)
    with t Cons show ?thesis by simp
  next
    case (Inl err)
    with t Cons show ?thesis by (cases err) simp_all
  qed
qed

lemma resolve_pass_all_missing:
  "resolve_pass json fps' els idxs st False = Inr (st', False)
     \<Longrightarrow> \<forall>index \<in> set idxs. \<exists>s ref. snd (try_scene json fps' els index s)
                                      = Inl (MissingTimeReference ref)"
proof (induction idxs arbitrary: st)
  case Nil
  then show ?case by simp
next
  case (Cons index rest)
  obtain st1 r where ts: "try_scene json fps' els index st = (st1, r)"
    by (cases "try_scene json fps' els index st") auto
  show ?case
  proof (cases r)
    case (Inr sd)
    with Cons.prems ts resolve_pass_flag show ?thesis by simp
  next
    case (Inl err)
    show ?thesis
    proof (cases "\<exists>ref. err = MissingTimeReference ref")
      case True
      then obtain ref where ref: "err = MissingTimeReference ref" by blast
      with Cons.prems ts Inl
      have "resolve_pass json fps' els rest st1 False = Inr (st', False)"
        by auto
      from Cons.IH [OF this]
      have rest: "\<forall>index \<in> set rest. \<exists>s ref. snd (try_scene json fps' els index s)
                                      = Inl (MissingTimeReference ref)" .
      from ts Inl ref have "snd (try_scene json fps' els index st) = Inl (MissingTimeReference ref)"
        by simp
      then have "\<exists>s ref. snd (try_scene json fps' els index s) = Inl (MissingTimeReference ref)"
        by blast
      with rest show ?thesis by simp
    next
      case False
      with Cons.prems ts Inl show ?thesis
        by (cases err) simp_all
    qed
  qed
qed

lemma resolve_loop_cases:
  "\<exists>k st1. k \<le> length (pending st) \<and> continued json fps' els passes k st = Some st1
     \<and> ((pending st1 = [] \<and> resolve_loop json fps' els st passes = Inr st1)
        \<or> (pending st1 \<noteq> []
            \<and> (\<exists>st2. resolve_pass json fps' els (pending st1) st1 False = Inr (st2, False)
                      \<and> pending st2 = pending st1)
            \<and> (\<forall>index \<in> set (pending st1).
                  \<exists>s ref. snd (try_scene json fps' els index s) = Inl (MissingTimeReference ref))
            \<and> resolve_loop json fps' els st passes
                = Inl (UnresolvedTimeReferences (map (unresolved_name els) (pending st1))))
        \<or> (pending st1 \<noteq> []
            \<and> (\<exists>st2. resolve_pass json fps' els (pending st1) st1 False = Inr (st2, True))
            \<and> length els + 2 < passes + k + 1
            \<and> resolve_loop json fps' els st passes = Inl DidNotConverge)
        \<or> (pending st1 \<noteq> []
            \<and> (\<exists>e. resolve_pass json fps' els (pending st1) st1 False = Inl e
                    \<and> (\<exists>index \<in> set (pending st1).
                          \<exists>s. snd (try_scene json fps' els index s) = Inl e)
                    \<and> (\<forall>ref. e \<noteq> MissingTimeReference ref)
                    \<and> (\<forall>ids. e \<noteq> UnresolvedTimeReferences ids) \<and> e \<noteq> DidNotConverge
                    \<and> resolve_loop json fps' els st passes = Inl e)))"
  (is "\<exists>k st1. ?P json fps' els st passes k st1")
proof (induction json fps' els st passes rule: resolve_loop.induct)
  case (1 json fps' els st passes)
  show ?case
  proof (cases "pending st = []")
    case True
    then have "?P json fps' els st passes 0 st"
      by (simp add: resolve_loop.simps [of json fps' els st passes])
    then show ?thesis by blast
  next
    case False
    note busy = this
    show ?thesis
    proof (cases "resolve_pass json fps' els (pending st) st False")
      case (Inl e)
      from resolve_pass_error [OF Inl]
      have e: "(\<forall>ref. e \<noteq> MissingTimeReference ref) \<and> (\<forall>ids. e \<noteq> UnresolvedTimeReferences ids)
          \<and> e \<noteq> DidNotConverge"
        by (auto simp: outer_failures_def)
      have r: "resolve_loop json fps' els st passes = Inl e"
        using busy Inl by (simp add: resolve_loop.simps [of json fps' els st passes])
      from resolve_pass_thrower [OF Inl] busy Inl e r
      have "?P json fps' els st passes 0 st"
        by simp
      then show ?thesis by blast
    next
      case (Inr r)
      show ?thesis
      proof (cases "snd r")
        case False
        with Inr have pass: "resolve_pass json fps' els (pending st) st False = Inr (fst r, False)"
          by (cases r) simp
        from resolve_pass_no_progress [OF pass] have same: "pending (fst r) = pending st" .
        have res: "resolve_loop json fps' els st passes
            = Inl (UnresolvedTimeReferences (map (unresolved_name els) (pending st)))"
          using busy Inr False same by (simp add: resolve_loop.simps [of json fps' els st passes])
        have "\<exists>st2. resolve_pass json fps' els (pending st) st False = Inr (st2, False)
                      \<and> pending st2 = pending st"
          using pass same by blast
        with resolve_pass_all_missing [OF pass] busy res
        have "?P json fps' els st passes 0 st"
          by simp
        then show ?thesis by blast
      next
        case True
        with Inr have pass: "resolve_pass json fps' els (pending st) st False = Inr (fst r, True)"
          by (cases r) simp
        show ?thesis
        proof (cases "length els + 2 < passes + 1")
          case True
          have res: "resolve_loop json fps' els st passes = Inl DidNotConverge"
            using busy Inr \<open>snd r\<close> True by (simp add: resolve_loop.simps [of json fps' els st passes])
          have "\<exists>st2. resolve_pass json fps' els (pending st) st False = Inr (st2, True)"
            using pass by blast
          with busy res True have "?P json fps' els st passes 0 st"
            by simp
          then show ?thesis by blast
        next
          case False
          have eq: "resolve_loop json fps' els st passes
              = resolve_loop json fps' els (fst r) (passes + 1)"
            using busy Inr True False
            by (simp add: resolve_loop.simps [of json fps' els st passes])
          from "1.IH" [OF busy Inr _ False] True
          obtain k st1 where ih: "?P json fps' els (fst r) (passes + 1) k st1"
            by blast
          from resolve_pass_progress [OF pass]
          have less: "length (pending (fst r)) < length (pending st)" by simp
          have cont: "continued json fps' els passes (Suc k) st = Some st1"
            using ih busy Inr True False by simp
          from ih less have k: "Suc k \<le> length (pending st)" by simp
          from ih cont k have "?P json fps' els st passes (Suc k) st1"
            unfolding eq by simp
          then show ?thesis by blast
        qed
      qed
    qed
  qed
qed

text \<open>
  From the initial state the bound on the number of passes is never reached: every pass
  that does not end the loop removes at least one scene from the pending set.
\<close>

lemma did_not_converge_unreachable:
  "passes + length (pending st) \<le> length els + 2
     \<Longrightarrow> resolve_loop json fps' els st passes \<noteq> Inl DidNotConverge"
proof (induction json fps' els st passes rule: resolve_loop.induct)
  case (1 json fps' els st passes)
  show ?case
  proof (cases "pending st = []")
    case True
    then show ?thesis by (simp add: resolve_loop.simps [of json fps' els st passes])
  next
    case False
    note busy = this
    show ?thesis
    proof (cases "resolve_pass json fps' els (pending st) st False")
      case (Inl e)
      from resolve_pass_error [OF Inl] have "e \<noteq> DidNotConverge"
        by (auto simp: outer_failures_def)
      with busy Inl show ?thesis
        by (simp add: resolve_loop.simps [of json fps' els st passes])
    next
      case (Inr r)
      show ?thesis
      proof (cases "snd r")
        case False
        with busy Inr show ?thesis
          by (simp add: resolve_loop.simps [of json fps' els st passes])
      next
        case True
        from busy have "1 \<le> length (pending st)" by (cases "pending st") simp_all
        with "1.prems" have bound: "\<not> length els + 2 < passes + 1" by linarith
        from Inr True have "resolve_pass json fps' els (pending st) st False = Inr (fst r, True)"
          by (cases r) simp
        from resolve_pass_progress [OF this]
        have "length (pending (fst r)) < length (pending st)" by simp
        with "1.prems" have "passes + 1 + length (pending (fst r)) \<le> length els + 2" by simp
        from "1.IH" [OF busy Inr _ bound this] True busy Inr bound show ?thesis
          by (simp add: resolve_loop.simps [of json fps' els st passes])
      qed
    qed
  qed
qed

text \<open>
  Claim C5, amended. The loop of the resolver terminates: after at most as many passes as
  there are scenes pending, each of which resolves a scene and stays within the bound on
  the number of passes, it ends in exactly one of four ways. Nothing is pending, and the
  state is returned. Or a pass over the pending scenes returns without having resolved
  one, every pending scene having raised the unresolved-reference signal, and the error
  names the pending scenes. Or a pass resolves a scene but brings the number of passes
  above the number of scenes plus two, and the error is the did-not-converge error; this
  does not happen when the passes counted so far and the scenes pending are together no
  more than the number of scenes plus two, as they are at the start. Or a pending scene
  raises, while it is evaluated, an error that is not the unresolved-reference signal, and
  this error, which is neither of the two errors of the loop, is the result.
\<close>

theorem resolve_loop_outcomes:
  "(\<exists>k st1. k \<le> length (pending st) \<and> continued json fps' els passes k st = Some st1
     \<and> ((pending st1 = [] \<and> resolve_loop json fps' els st passes = Inr st1)
        \<or> (pending st1 \<noteq> []
            \<and> (\<exists>st2. resolve_pass json fps' els (pending st1) st1 False = Inr (st2, False)
                      \<and> pending st2 = pending st1)
            \<and> (\<forall>index \<in> set (pending st1).
                  \<exists>s ref. snd (try_scene json fps' els index s) = Inl (MissingTimeReference ref))
            \<and> resolve_loop json fps' els st passes
                = Inl (UnresolvedTimeReferences (map (unresolved_name els) (pending st1))))
        \<or> (pending st1 \<noteq> []
            \<and> (\<exists>st2. resolve_pass json fps' els (pending st1) st1 False = Inr (st2, True))
            \<and> length els + 2 < passes + k + 1
            \<and> resolve_loop json fps' els st passes = Inl DidNotConverge)
        \<or> (pending st1 \<noteq> []
            \<and> (\<exists>e. resolve_pass json fps' els (pending st1) st1 False = Inl e
                    \<and> (\<exists>index \<in> set (pending st1).
                          \<exists>s. snd (try_scene json fps' els index s) = Inl e)
                    \<and> (\<forall>ref. e \<noteq> MissingTimeReference ref)
                    \<and> (\<forall>ids. e \<noteq> UnresolvedTimeReferences ids) \<and> e \<noteq> DidNotConverge
                    \<and> resolve_loop json fps' els st passes = Inl e))))
   \<and> (passes + length (pending st) \<le> length els + 2
        \<longrightarrow> resolve_loop json fps' els st passes \<noteq> Inl DidNotConverge)"
  using resolve_loop_cases [of st json fps' els passes]
    did_not_converge_unreachable [of passes st els json fps']
  by blast

theorem resolve_loop_outcomes_witness:
  "resolve_loop any_json (Fin 30) unnamed_scene_doc (initial_resolution unnamed_scene_doc) 0
     = Inl SceneRequiresId
   \<and> 0 + length (pending (initial_resolution unnamed_scene_doc)) \<le> length unnamed_scene_doc + 2
   \<and> (\<exists>k st1. k \<le> length (pending (initial_resolution unnamed_scene_doc))
         \<and> continued any_json (Fin 30) unnamed_scene_doc 0 k (initial_resolution unnamed_scene_doc)
             = Some st1
         \<and> pending st1 \<noteq> []
         \<and> resolve_pass any_json (Fin 30) unnamed_scene_doc (pending st1) st1 False
             = Inl SceneRequiresId)"
proof -
  have r: "resolve_loop any_json (Fin 30) unnamed_scene_doc (initial_resolution unnamed_scene_doc) 0
     = Inl SceneRequiresId"
    by (rule failed_with) code_simp
  have b: "0 + length (pending (initial_resolution unnamed_scene_doc)) \<le> length unnamed_scene_doc + 2"
    by (simp add: initial_resolution_def)
  from resolve_loop_outcomes [of "initial_resolution unnamed_scene_doc" any_json "Fin 30"
      unnamed_scene_doc 0] r b
  show ?thesis by auto
qed

theorem scene_error_outcome_counterexample:
  "\<not> ((\<exists>st'. resolve_loop any_json (Fin 30) unnamed_scene_doc
               (initial_resolution unnamed_scene_doc) 0 = Inr st')
      \<or> (\<exists>ids. resolve_loop any_json (Fin 30) unnamed_scene_doc
               (initial_resolution unnamed_scene_doc) 0 = Inl (UnresolvedTimeReferences ids))
      \<or> resolve_loop any_json (Fin 30) unnamed_scene_doc
               (initial_resolution unnamed_scene_doc) 0 = Inl DidNotConverge)"
proof -
  have "resolve_loop any_json (Fin 30) unnamed_scene_doc (initial_resolution unnamed_scene_doc) 0
     = Inl SceneRequiresId"
    by (rule failed_with) code_simp
  then show ?thesis by simp
qed

section \<open>Cue ids are unique in a resolved composition\<close>

lemma parseCue_id: "parseCue ctx el = Inr c \<Longrightarrow> getAttr el ''id'' = Some (parsed_id c)"
  by (auto simp: parseCue_def split: option.splits if_splits sum.splits)

lemma cue_ids_in_Cons:
  "cue_ids_in (c # cs) =
     (if tagName c = ''cue'' then (case getAttr c ''id'' of None \<Rightarrow> [] | Some i \<Rightarrow> [i]) else [])
     @ cue_ids_in cs"
  by (simp add: cue_ids_in_def List.map_filter_def split: option.splits)

lemma scene_children_cues:
  "scene_children json ctx els st acc = (st', r) \<Longrightarrow>
     cueIds st \<subseteq> cueIds st' \<and> resolved st' = resolved st
     \<and> (\<forall>a. r = Inr a \<longrightarrow>
          cueIds st' = cueIds st \<union> set (cue_ids_in els) \<and> distinct (cue_ids_in els)
          \<and> set (cue_ids_in els) \<inter> cueIds st = {})"
proof (induction els arbitrary: st acc)
  case Nil
  then show ?case by (simp add: cue_ids_in_def List.map_filter_def)
next
  case (Cons child rest)
  obtain items layers components componentIndex
    where acc: "acc = (items, layers, components, componentIndex)"
    by (cases acc) auto
  show ?case
  proof (cases "tagName child = ''cue''")
    case True
    show ?thesis
    proof (cases "parseCue (ctx st) child")
      case (Inl e)
      with Cons.prems True show ?thesis
        unfolding acc by auto
    next
      case (Inr c)
      note parsed = this
      from parseCue_id [OF parsed] have cid: "getAttr child ''id'' = Some (parsed_id c)" .
      show ?thesis
      proof (cases "parsed_id c \<in> cueIds st")
        case True
        with Cons.prems \<open>tagName child = ''cue''\<close> parsed show ?thesis
          unfolding acc by auto
      next
        case False
        let ?st1 = "st\<lparr>cueIds := insert (parsed_id c) (cueIds st),
                     cueStartIndex :=
                       (case parsed_time c of
                          None \<Rightarrow> cueStartIndex st
                        | Some tr \<Rightarrow> (cueStartIndex st)(parsed_id c \<mapsto> fst tr))\<rparr>"
        from Cons.prems True parsed False
        have run: "scene_children json ctx rest ?st1
            (items @ [CueItem c], layers, components, componentIndex) = (st', r)"
          unfolding acc by simp
        from Cons.IH [OF run]
        have sub: "cueIds ?st1 \<subseteq> cueIds st'" and res: "resolved st' = resolved ?st1"
          and ok: "\<forall>a. r = Inr a \<longrightarrow>
              cueIds st' = cueIds ?st1 \<union> set (cue_ids_in rest) \<and> distinct (cue_ids_in rest)
              \<and> set (cue_ids_in rest) \<inter> cueIds ?st1 = {}"
          by blast+
        have ids: "cue_ids_in (child # rest) = parsed_id c # cue_ids_in rest"
          using True cid by (simp add: cue_ids_in_Cons)
        show ?thesis
          unfolding ids using sub res ok False by auto
      qed
    qed
  next
    case False
    note not_cue = this
    then have ids: "cue_ids_in (child # rest) = cue_ids_in rest"
      by (simp add: cue_ids_in_Cons)
    have stop: ?thesis if "(st', r) = (st, Inl e)" for e
      using that by auto
    have continue: ?thesis if "scene_children json ctx rest st acc' = (st', r)" for acc'
      using Cons.IH [OF that] unfolding ids .
    show ?thesis
    proof (cases "tagName child = ''pause''")
      case True
      show ?thesis
      proof (cases "parsePause (ctx st) child")
        case (Inl e)
        with Cons.prems not_cue True have "(st', r) = (st, Inl e)"
          unfolding acc by simp
        then show ?thesis by (rule stop)
      next
        case (Inr p)
        with Cons.prems not_cue True
        have "scene_children json ctx rest st
            (items @ [PauseItem p], layers, components, componentIndex) = (st', r)"
          unfolding acc by simp
        then show ?thesis by (rule continue)
      qed
    next
      case False
      note not_pause = this
      show ?thesis
      proof (cases "tagName child = ''layer''")
        case True
        show ?thesis
        proof (cases "parseLayer json (ctx st) child")
          case (Inl e)
          with Cons.prems not_cue not_pause True have "(st', r) = (st, Inl e)"
            unfolding acc by simp
          then show ?thesis by (rule stop)
        next
          case (Inr l)
          with Cons.prems not_cue not_pause True
          have "scene_children json ctx rest st
              (items, layers @ [l], components, componentIndex) = (st', r)"
            unfolding acc by simp
          then show ?thesis by (rule continue)
        qed
      next
        case False
        show ?thesis
        proof (cases "container_or_component json (ctx st) child componentIndex")
          case (Inl e)
          with Cons.prems not_cue not_pause False have "(st', r) = (st, Inl e)"
            unfolding acc by simp
          then show ?thesis by (rule stop)
        next
          case (Inr res)
          with Cons.prems not_cue not_pause False
          have "scene_children json ctx rest st
              (items, layers, components @ fst res, snd res) = (st', r)"
            unfolding acc by simp
          then show ?thesis by (rule continue)
        qed
      qed
    qed
  qed
qed

lemma try_scene_cues:
  assumes "try_scene json fps' els index st = (st', r)"
  shows "cueIds st \<subseteq> cueIds st'" and "resolved st' = resolved st"
    and "r = Inr sd \<Longrightarrow> index < length els"
    and "r = Inr sd \<Longrightarrow> cueIds st' = cueIds st \<union> set (cue_ids_of (els ! index))"
    and "r = Inr sd \<Longrightarrow> distinct (cue_ids_of (els ! index))"
    and "r = Inr sd \<Longrightarrow> set (cue_ids_of (els ! index)) \<inter> cueIds st = {}"
proof -
  let ?ctx = "scene_context fps' els index"
  let ?sc = "scene_children json ?ctx (children (els ! index)) st ([], [], [], 0)"
  obtain st1 r1 where eq: "?sc = (st1, r1)" by (cases ?sc) auto
  note sc = scene_children_cues [OF eq]
  have all: "cueIds st \<subseteq> cueIds st' \<and> resolved st' = resolved st
    \<and> (r = Inr sd \<longrightarrow> index < length els
          \<and> cueIds st' = cueIds st \<union> set (cue_ids_of (els ! index))
          \<and> distinct (cue_ids_of (els ! index))
          \<and> set (cue_ids_of (els ! index)) \<inter> cueIds st = {})"
  proof (cases "length els \<le> index \<or> \<not> truthyAttr (els ! index) ''id''")
    case True
    with assms show ?thesis by (auto simp: try_scene_def Let_def split: if_splits)
  next
    case False
    show ?thesis
    proof (cases "parseTiming (?ctx st) (els ! index)")
      case (Inl e)
      with assms False show ?thesis by (auto simp: try_scene_def Let_def)
    next
      case (Inr sceneTiming)
      show ?thesis
      proof (cases r1)
        case (Inl e)
        with assms False Inr eq sc show ?thesis
          by (auto simp: try_scene_def Let_def)
      next
        case (Inr acc)
        obtain items layers components componentIndex
          where acc: "acc = (items, layers, components, componentIndex)"
          by (cases acc) auto
        from assms False \<open>parseTiming (?ctx st) (els ! index) = Inr sceneTiming\<close> eq Inr acc sc
        show ?thesis
          by (auto simp: try_scene_def Let_def cue_ids_of_def split: if_splits)
      qed
    qed
  qed
  from all show "cueIds st \<subseteq> cueIds st'" and "resolved st' = resolved st"
    and "r = Inr sd \<Longrightarrow> index < length els"
    and "r = Inr sd \<Longrightarrow> cueIds st' = cueIds st \<union> set (cue_ids_of (els ! index))"
    and "r = Inr sd \<Longrightarrow> distinct (cue_ids_of (els ! index))"
    and "r = Inr sd \<Longrightarrow> set (cue_ids_of (els ! index)) \<inter> cueIds st = {}"
    by blast+
qed

lemma commit_scene_invariant:
  assumes inv: "cue_invariant els st"
    and ts: "try_scene json fps' els index st = (st1, Inr sd)"
  shows "cue_invariant els (commit_scene index sd st1)"
proof -
  note facts = try_scene_cues [OF ts]
  have res: "resolved st1 = resolved st" by (rule facts(2))
  have lt: "index < length els" by (rule facts(3)) simp
  have ids: "cueIds st1 = cueIds st \<union> set (cue_ids_of (els ! index))" by (rule facts(4)) simp
  have dist: "distinct (cue_ids_of (els ! index))" by (rule facts(5)) simp
  have fresh: "set (cue_ids_of (els ! index)) \<inter> cueIds st = {}" by (rule facts(6)) simp
  have pend: "pending st1 = pending st"
    using try_scene_pending [of json fps' els index st] ts by simp
  have dom': "dom (resolved (commit_scene index sd st1)) = insert index (dom (resolved st))"
    using res by (simp add: commit_scene_def)
  have cue': "cueIds (commit_scene index sd st1) = cueIds st1"
    by (simp add: commit_scene_def)
  have pend': "pending (commit_scene index sd st1) = removeAll index (pending st)"
    using pend by (simp add: commit_scene_def)
  from inv have old: "\<And>i. i \<in> dom (resolved st) \<Longrightarrow>
        i < length els \<and> distinct (cue_ids_of (els ! i)) \<and> set (cue_ids_of (els ! i)) \<subseteq> cueIds st"
    and apart: "\<And>i j. i \<in> dom (resolved st) \<Longrightarrow> j \<in> dom (resolved st) \<Longrightarrow> i \<noteq> j
        \<Longrightarrow> set (cue_ids_of (els ! i)) \<inter> set (cue_ids_of (els ! j)) = {}"
    and cover: "\<And>i. i < length els \<Longrightarrow> i \<in> set (pending st) \<or> i \<in> dom (resolved st)"
    unfolding cue_invariant_def by blast+
  have a: "i < length els \<and> distinct (cue_ids_of (els ! i))
        \<and> set (cue_ids_of (els ! i)) \<subseteq> cueIds st1"
    if "i \<in> insert index (dom (resolved st))" for i
  proof (cases "i = index")
    case True
    with lt dist ids show ?thesis by simp
  next
    case False
    with that have "i \<in> dom (resolved st)" by simp
    from old [OF this] ids show ?thesis by auto
  qed
  have b: "set (cue_ids_of (els ! i)) \<inter> set (cue_ids_of (els ! j)) = {}"
    if "i \<in> insert index (dom (resolved st))" "j \<in> insert index (dom (resolved st))" "i \<noteq> j"
    for i j
  proof -
    have new_old: "set (cue_ids_of (els ! index)) \<inter> set (cue_ids_of (els ! k)) = {}"
      if "k \<in> dom (resolved st)" for k
      using old [OF that] fresh by auto
    show ?thesis
    proof (cases "i = index")
      case True
      with that have "j \<in> dom (resolved st)" by auto
      from new_old [OF this] True show ?thesis by simp
    next
      case False
      with that have i: "i \<in> dom (resolved st)" by simp
      show ?thesis
      proof (cases "j = index")
        case True
        from new_old [OF i] True show ?thesis by auto
      next
        case False
        with that have "j \<in> dom (resolved st)" by simp
        from apart [OF i this that(3)] show ?thesis .
      qed
    qed
  qed
  have c: "i \<in> set (removeAll index (pending st)) \<or> i \<in> insert index (dom (resolved st))"
    if "i < length els" for i
    using cover [OF that] by auto
  show ?thesis
    unfolding cue_invariant_def dom' cue' pend' using a b c by blast
qed

lemma failed_scene_invariant:
  assumes inv: "cue_invariant els st"
    and ts: "try_scene json fps' els index st = (st1, Inl e)"
  shows "cue_invariant els st1"
proof -
  note facts = try_scene_cues [OF ts]
  have pend: "pending st1 = pending st"
    using try_scene_pending [of json fps' els index st] ts by simp
  show ?thesis
    using inv facts(1,2) pend unfolding cue_invariant_def by (simp add: subset_iff)
qed

lemma resolve_pass_invariant:
  "resolve_pass json fps' els idxs st p = Inr (st', p') \<Longrightarrow> cue_invariant els st
     \<Longrightarrow> cue_invariant els st'"
proof (induction idxs arbitrary: st p)
  case Nil
  then show ?case by simp
next
  case (Cons index rest)
  obtain st1 r where ts: "try_scene json fps' els index st = (st1, r)"
    by (cases "try_scene json fps' els index st") auto
  show ?case
  proof (cases r)
    case (Inr sd)
    with Cons.prems ts
    have run: "resolve_pass json fps' els rest (commit_scene index sd st1) True = Inr (st', p')"
      by simp
    from ts Inr have "try_scene json fps' els index st = (st1, Inr sd)" by simp
    from commit_scene_invariant [OF Cons.prems(2) this]
    have "cue_invariant els (commit_scene index sd st1)" .
    from Cons.IH [OF run this] show ?thesis .
  next
    case (Inl err)
    from ts Inl have "try_scene json fps' els index st = (st1, Inl err)" by simp
    from failed_scene_invariant [OF Cons.prems(2) this]
    have inv1: "cue_invariant els st1" .
    show ?thesis
    proof (cases "\<exists>ref. err = MissingTimeReference ref")
      case True
      with Cons.prems ts Inl
      have "resolve_pass json fps' els rest st1 p = Inr (st', p')"
        by auto
      from Cons.IH [OF this inv1] show ?thesis .
    next
      case False
      with Cons.prems ts Inl show ?thesis
        by (cases err) simp_all
    qed
  qed
qed

lemma resolve_loop_invariant:
  "resolve_loop json fps' els st passes = Inr st' \<Longrightarrow> cue_invariant els st
     \<Longrightarrow> cue_invariant els st' \<and> pending st' = []"
proof (induction json fps' els st passes rule: resolve_loop.induct)
  case (1 json fps' els st passes)
  show ?case
  proof (cases "pending st = []")
    case True
    with "1.prems" show ?thesis
      by (simp add: resolve_loop.simps [of json fps' els st passes])
  next
    case False
    note busy = this
    show ?thesis
    proof (cases "resolve_pass json fps' els (pending st) st False")
      case (Inl e)
      with "1.prems" busy show ?thesis
        by (simp add: resolve_loop.simps [of json fps' els st passes])
    next
      case (Inr r)
      from "1.prems"(1) busy Inr have prog: "snd r" and bound: "\<not> length els + 2 < passes + 1"
        and rec: "resolve_loop json fps' els (fst r) (passes + 1) = Inr st'"
        by (auto simp: resolve_loop.simps [of json fps' els st passes] split: if_splits)
      from Inr have "resolve_pass json fps' els (pending st) st False = Inr (fst r, snd r)"
        by simp
      from resolve_pass_invariant [OF this "1.prems"(2)] have "cue_invariant els (fst r)" .
      from "1.IH" [OF busy Inr _ bound rec this] prog show ?thesis by simp
    qed
  qed
qed

lemma initial_invariant: "cue_invariant els (initial_resolution els)"
  by (simp add: cue_invariant_def initial_resolution_def)

lemma distinct_concat_upt:
  "(\<And>i. i < n \<Longrightarrow> distinct (f i))
     \<Longrightarrow> (\<And>i j. i < n \<Longrightarrow> j < n \<Longrightarrow> i \<noteq> j \<Longrightarrow> set (f i) \<inter> set (f j) = {})
     \<Longrightarrow> distinct (concat (map f [0..<n]))"
proof (induction n)
  case 0
  show ?case by simp
next
  case (Suc n)
  have "distinct (concat (map f [0..<n]))"
    by (rule Suc.IH) (simp_all add: Suc.prems)
  moreover have "distinct (f n)" by (rule Suc.prems(1)) simp
  moreover have "set (f n) \<inter> set (f i) = {}" if "i < n" for i
    using that by (intro Suc.prems(2)) simp_all
  ultimately show ?case by (auto simp: disjoint_iff)
qed

lemma resolved_cues_distinct:
  assumes "cue_invariant els st" and "pending st = []"
  shows "distinct (concat (map cue_ids_of els))"
proof -
  from assms have all: "i \<in> dom (resolved st)" if "i < length els" for i
    using that unfolding cue_invariant_def by auto
  have "distinct (concat (map (\<lambda>i. cue_ids_of (els ! i)) [0..<length els]))"
  proof (rule distinct_concat_upt)
    fix i assume "i < length els"
    from all [OF this] assms(1) show "distinct (cue_ids_of (els ! i))"
      unfolding cue_invariant_def by blast
  next
    fix i j assume "i < length els" "j < length els" "i \<noteq> j"
    with all [of i] all [of j] assms(1)
    show "set (cue_ids_of (els ! i)) \<inter> set (cue_ids_of (els ! j)) = {}"
      unfolding cue_invariant_def by blast
  qed
  moreover have "map (\<lambda>i. cue_ids_of (els ! i)) [0..<length els] = map cue_ids_of els"
  proof -
    have "map cue_ids_of els = map cue_ids_of (map ((!) els) [0..<length els])"
      by (simp only: map_nth)
    also have "\<dots> = map (\<lambda>i. cue_ids_of (els ! i)) [0..<length els]"
      by (simp only: map_map o_def)
    finally show ?thesis by (rule sym)
  qed
  ultimately show ?thesis by simp
qed

lemma not_duplicate: "avoids foreign r \<Longrightarrow> r \<noteq> Inl (DuplicateCueId c)"
  by (auto simp: avoids_def foreign_def loop_failures_def)

lemma cue_ids_in_rest: "c \<in> set (cue_ids_in rest) \<Longrightarrow> c \<in> set (cue_ids_in (child # rest))"
  by (simp only: cue_ids_in_Cons set_append Un_iff simp_thms)

lemma scene_children_duplicate:
  "snd (scene_children json ctx els st acc) = Inl (DuplicateCueId c) \<Longrightarrow> c \<in> set (cue_ids_in els)"
proof (induction els arbitrary: st acc)
  case Nil
  then show ?case by simp
next
  case (Cons child rest)
  obtain items layers components componentIndex
    where acc: "acc = (items, layers, components, componentIndex)"
    by (cases acc) auto
  have continue: ?case if "snd (scene_children json ctx rest s a) = Inl (DuplicateCueId c)" for s a
    using Cons.IH [OF that] by (rule cue_ids_in_rest)
  show ?case
  proof (cases "tagName child = ''cue''")
    case True
    show ?thesis
    proof (cases "parseCue (ctx st) child")
      case (Inl e)
      with Cons.prems True not_duplicate [OF parseCue_avoids, of "ctx st" child c] show ?thesis
        unfolding acc by simp
    next
      case (Inr cue)
      from parseCue_id [OF Inr] have cid: "getAttr child ''id'' = Some (parsed_id cue)" .
      show ?thesis
      proof (cases "parsed_id cue \<in> cueIds st")
        case True
        with Cons.prems \<open>tagName child = ''cue''\<close> Inr have "c = parsed_id cue"
          unfolding acc by simp
        with cid \<open>tagName child = ''cue''\<close> show ?thesis
          by (simp add: cue_ids_in_Cons)
      next
        case False
        with Cons.prems True Inr show ?thesis
          unfolding acc by (auto intro: continue)
      qed
    qed
  next
    case False
    note not_cue = this
    show ?thesis
    proof (cases "tagName child = ''pause''")
      case True
      show ?thesis
      proof (cases "parsePause (ctx st) child")
        case (Inl e)
        with Cons.prems not_cue True not_duplicate [OF parsePause_avoids, of "ctx st" child c]
        show ?thesis unfolding acc by simp
      next
        case (Inr p)
        with Cons.prems not_cue True show ?thesis
          unfolding acc by (auto intro: continue)
      qed
    next
      case False
      note not_pause = this
      show ?thesis
      proof (cases "tagName child = ''layer''")
        case True
        show ?thesis
        proof (cases "parseLayer json (ctx st) child")
          case (Inl e)
          with Cons.prems not_cue not_pause True
            not_duplicate [OF parseLayer_avoids, of json "ctx st" child c]
          show ?thesis unfolding acc by simp
        next
          case (Inr l)
          with Cons.prems not_cue not_pause True show ?thesis
            unfolding acc by (auto intro: continue)
        qed
      next
        case False
        show ?thesis
        proof (cases "container_or_component json (ctx st) child componentIndex")
          case (Inl e)
          with Cons.prems not_cue not_pause False
            not_duplicate [OF container_or_component_avoids, of json "ctx st" child componentIndex c]
          show ?thesis unfolding acc by simp
        next
          case (Inr res)
          with Cons.prems not_cue not_pause False show ?thesis
            unfolding acc by (auto intro: continue)
        qed
      qed
    qed
  qed
qed

lemma try_scene_duplicate:
  assumes "snd (try_scene json fps' els index st) = Inl (DuplicateCueId c)"
  shows "index < length els \<and> c \<in> set (cue_ids_of (els ! index))"
proof -
  let ?ctx = "scene_context fps' els index"
  let ?sc = "scene_children json ?ctx (children (els ! index)) st ([], [], [], 0)"
  obtain st1 r1 where eq: "?sc = (st1, r1)" by (cases ?sc) auto
  show ?thesis
  proof (cases "length els \<le> index \<or> \<not> truthyAttr (els ! index) ''id''")
    case True
    with assms show ?thesis by (auto simp: try_scene_def Let_def split: if_splits)
  next
    case False
    show ?thesis
    proof (cases "parseTiming (?ctx st) (els ! index)")
      case (Inl e)
      with assms False not_duplicate [OF parseTiming_avoids, of "?ctx st" "els ! index" c]
      show ?thesis by (simp add: try_scene_def Let_def)
    next
      case (Inr sceneTiming)
      show ?thesis
      proof (cases r1)
        case (Inl e)
        with assms False Inr eq have "e = DuplicateCueId c"
          by (simp add: try_scene_def Let_def)
        with Inl eq have "snd ?sc = Inl (DuplicateCueId c)" by simp
        from scene_children_duplicate [OF this] False show ?thesis
          by (simp add: cue_ids_of_def)
      next
        case (Inr acc)
        obtain items layers components componentIndex
          where acc: "acc = (items, layers, components, componentIndex)"
          by (cases acc) auto
        from assms False \<open>parseTiming (?ctx st) (els ! index) = Inr sceneTiming\<close> eq Inr acc
        show ?thesis
          by (simp add: try_scene_def Let_def split: if_splits)
      qed
    qed
  qed
qed

lemma resolve_pass_subset:
  "resolve_pass json fps' els idxs st p = Inr (st', p')
     \<Longrightarrow> set (pending st') \<subseteq> set (pending st)"
proof (induction idxs arbitrary: st p)
  case Nil
  then show ?case by simp
next
  case (Cons index rest)
  obtain st1 r where ts: "try_scene json fps' els index st = (st1, r)"
    by (cases "try_scene json fps' els index st") auto
  have p1: "pending st1 = pending st"
    using try_scene_pending [of json fps' els index st] ts by simp
  show ?case
  proof (cases r)
    case (Inr sd)
    with Cons.prems ts
    have "resolve_pass json fps' els rest (commit_scene index sd st1) True = Inr (st', p')"
      by simp
    from Cons.IH [OF this] p1 show ?thesis
      by (auto simp add: commit_scene_pending)
  next
    case (Inl e)
    show ?thesis
    proof (cases e)
      case (MissingTimeReference ref)
      with Cons.prems ts Inl
      have "resolve_pass json fps' els rest st1 p = Inr (st', p')"
        by simp
      from Cons.IH [OF this] p1 show ?thesis by simp
    qed (use Cons.prems ts Inl in simp_all)
  qed
qed

text \<open>
  An error of the loop that starts within the bound on the passes is the error of a
  pending scene, or the pending scenes that it names raised the unresolved-reference
  signal.
\<close>

lemma resolve_loop_thrower:
  "resolve_loop json fps' els st passes = Inl e
     \<Longrightarrow> passes + length (pending st) \<le> length els + 2
     \<Longrightarrow> \<exists>index \<in> set (pending st). \<exists>s.
           snd (try_scene json fps' els index s) = Inl e
           \<or> (\<exists>ref. snd (try_scene json fps' els index s) = Inl (MissingTimeReference ref))"
proof (induction json fps' els st passes rule: resolve_loop.induct)
  case (1 json fps' els st passes)
  show ?case
  proof (cases "pending st = []")
    case True
    with "1.prems" show ?thesis by (simp add: resolve_loop.simps [of json fps' els st passes])
  next
    case False
    note busy = this
    show ?thesis
    proof (cases "resolve_pass json fps' els (pending st) st False")
      case (Inl err)
      with busy "1.prems" have "err = e"
        by (simp add: resolve_loop.simps [of json fps' els st passes])
      with resolve_pass_thrower [OF Inl] show ?thesis by blast
    next
      case (Inr r)
      show ?thesis
      proof (cases "snd r")
        case False
        with Inr have pass: "resolve_pass json fps' els (pending st) st False = Inr (fst r, False)"
          by (cases r) simp
        from busy obtain index where "index \<in> set (pending st)"
          by (cases "pending st") auto
        with resolve_pass_all_missing [OF pass] show ?thesis by blast
      next
        case True
        with Inr have pass: "resolve_pass json fps' els (pending st) st False = Inr (fst r, True)"
          by (cases r) simp
        from busy have "1 \<le> length (pending st)" by (cases "pending st") simp_all
        with "1.prems" have bound: "\<not> length els + 2 < passes + 1" by linarith
        from resolve_pass_progress [OF pass]
        have "length (pending (fst r)) < length (pending st)" by simp
        with "1.prems" have le: "passes + 1 + length (pending (fst r)) \<le> length els + 2" by simp
        have eq: "resolve_loop json fps' els st passes
            = resolve_loop json fps' els (fst r) (passes + 1)"
          using busy Inr True bound
          by (simp add: resolve_loop.simps [of json fps' els st passes])
        from "1.IH" [OF busy Inr _ bound _ le] True "1.prems"(1) eq
        have "\<exists>index \<in> set (pending (fst r)). \<exists>s.
           snd (try_scene json fps' els index s) = Inl e
           \<or> (\<exists>ref. snd (try_scene json fps' els index s) = Inl (MissingTimeReference ref))"
          by simp
        with resolve_pass_subset [OF pass] show ?thesis by blast
      qed
    qed
  qed
qed

text \<open>
  Claim C2, amended. The cues that the resolver reads are the \<^verbatim>\<open>cue\<close> children of the
  \<^verbatim>\<open>scene\<close> children of the root. When two of them carry the same id, in one scene or
  in two, the resolver returns no composition: it fails. When, moreover, the root is
  accepted, its own \<^verbatim>\<open>duration\<close> and \<^verbatim>\<open>poster\<close> evaluate, and the evaluation of a
  scene raises no error but the duplicate-cue error, in whatever state, then the failure
  is the duplicate-cue error, and it names the id of a cue that the resolver reads.
\<close>

theorem duplicate_scene_cue_rejected:
  "(\<not> distinct (scene_cue_ids doc) \<longrightarrow> (\<exists>e. loadVideoFileFromXml json doc = Inl e))
   \<and> (let els = filter (\<lambda>c. tagName c = ''scene'') (children doc);
           fps' = number_or (Fin 30) doc ''fps''
       in \<not> distinct (scene_cue_ids doc)
          \<and> tagName doc \<in> {''videoml'', ''video-ml'', ''vml''} \<and> truthyAttr doc ''id''
          \<and> (\<exists>d. optTimeValue (baseCtx fps') (getAttr doc ''duration'') = Inr d)
          \<and> (\<exists>p. optTimeValue (baseCtx fps') (getAttr doc ''poster'') = Inr p)
          \<and> (\<forall>index < length els. \<forall>st e.
                snd (try_scene json fps' els index st) = Inl e \<longrightarrow> (\<exists>c. e = DuplicateCueId c))
          \<longrightarrow> (\<exists>c \<in> set (scene_cue_ids doc).
                 loadVideoFileFromXml json doc = Inl (DuplicateCueId c)))"
proof -
  let ?els = "filter (\<lambda>c. tagName c = ''scene'') (children doc)"
  let ?fps = "number_or (Fin 30) doc ''fps''"
  have no_result: "resolve_loop json f ?els (initial_resolution ?els) 0 \<noteq> Inr st"
    if "\<not> distinct (scene_cue_ids doc)" for f st
  proof
    assume "resolve_loop json f ?els (initial_resolution ?els) 0 = Inr st"
    from resolve_loop_invariant [OF this initial_invariant]
    have "cue_invariant ?els st" and "pending st = []"
      by simp_all
    then have "distinct (concat (map cue_ids_of ?els))"
      by (rule resolved_cues_distinct)
    with that show False by (simp add: scene_cue_ids_def)
  qed
  have fails: "\<not> distinct (scene_cue_ids doc) \<longrightarrow> (\<exists>e. loadVideoFileFromXml json doc = Inl e)"
  proof
    assume dup: "\<not> distinct (scene_cue_ids doc)"
    show "\<exists>e. loadVideoFileFromXml json doc = Inl e"
    proof (cases "loadVideoFileFromXml json doc")
      case (Inl e)
      then show ?thesis by simp
    next
      case (Inr comp)
      then obtain f st where "resolve_loop json f ?els (initial_resolution ?els) 0 = Inr st"
        by (auto simp: loadVideoFileFromXml_def Let_def split: if_splits sum.splits)
      with no_result [OF dup] show ?thesis by simp
    qed
  qed
  have names: "\<exists>c \<in> set (scene_cue_ids doc). loadVideoFileFromXml json doc = Inl (DuplicateCueId c)"
    if dup: "\<not> distinct (scene_cue_ids doc)"
      and root: "tagName doc \<in> {''videoml'', ''video-ml'', ''vml''}" "truthyAttr doc ''id''"
      and dur: "optTimeValue (baseCtx ?fps) (getAttr doc ''duration'') = Inr d"
      and pos: "optTimeValue (baseCtx ?fps) (getAttr doc ''poster'') = Inr p"
      and only: "\<forall>index < length ?els. \<forall>st e.
                snd (try_scene json ?fps ?els index st) = Inl e \<longrightarrow> (\<exists>c. e = DuplicateCueId c)"
    for d p
  proof -
    obtain e where loop: "resolve_loop json ?fps ?els (initial_resolution ?els) 0 = Inl e"
      using no_result [OF dup, of ?fps]
      by (cases "resolve_loop json ?fps ?els (initial_resolution ?els) 0") auto
    have "0 + length (pending (initial_resolution ?els)) \<le> length ?els + 2"
      by (simp add: initial_resolution_def)
    from resolve_loop_thrower [OF loop this]
    have "\<exists>index \<in> set (pending (initial_resolution ?els)). \<exists>s.
           snd (try_scene json ?fps ?els index s) = Inl e
           \<or> (\<exists>ref. snd (try_scene json ?fps ?els index s) = Inl (MissingTimeReference ref))" .
    moreover have "set (pending (initial_resolution ?els)) = {..<length ?els}"
      by (simp add: initial_resolution_def atLeast_upt)
    ultimately obtain index s where index: "index < length ?els"
      and thrown: "snd (try_scene json ?fps ?els index s) = Inl e
           \<or> (\<exists>ref. snd (try_scene json ?fps ?els index s) = Inl (MissingTimeReference ref))"
      by blast
    from thrown only index have e: "snd (try_scene json ?fps ?els index s) = Inl e"
      by blast
    with only index obtain c where c: "e = DuplicateCueId c"
      by blast
    from try_scene_duplicate [OF e [unfolded c]] have "c \<in> set (cue_ids_of (?els ! index))"
      by simp
    with index have "c \<in> set (scene_cue_ids doc)"
      unfolding scene_cue_ids_def by (auto simp del: set_filter)
    moreover have "loadVideoFileFromXml json doc = Inl (DuplicateCueId c)"
      using root dur pos loop c by (simp add: loadVideoFileFromXml_def Let_def)
    ultimately show ?thesis by blast
  qed
  from fails names show ?thesis
    unfolding Let_def by blast
qed

theorem duplicate_scene_cue_rejected_witness:
  "\<not> distinct (scene_cue_ids two_scene_cues_doc)
   \<and> tagName two_scene_cues_doc \<in> {''videoml'', ''video-ml'', ''vml''}
   \<and> truthyAttr two_scene_cues_doc ''id''
   \<and> optTimeValue (baseCtx (Fin 30)) (getAttr two_scene_cues_doc ''duration'') = Inr None
   \<and> optTimeValue (baseCtx (Fin 30)) (getAttr two_scene_cues_doc ''poster'') = Inr None
   \<and> scene_cue_ids two_scene_cues_doc = [''c'', ''c'']
   \<and> loadVideoFileFromXml any_json two_scene_cues_doc = Inl (DuplicateCueId ''c'')"
proof -
  let ?A = "Element ''scene'' [(''id'', ''A'')] [Element ''cue'' [(''id'', ''c'')] [] []] []"
  let ?B = "Element ''scene'' [(''id'', ''B'')] [Element ''cue'' [(''id'', ''c'')] [] []] []"
  have d: "\<not> distinct (scene_cue_ids two_scene_cues_doc)"
    by code_simp
  have ids: "scene_cue_ids two_scene_cues_doc = [''c'', ''c'']"
    by code_simp
  have els: "filter (\<lambda>c. tagName c = ''scene'') (children two_scene_cues_doc) = [?A, ?B]"
    by (simp add: two_scene_cues_doc_def)
  have fps: "number_or (Fin 30) two_scene_cues_doc ''fps'' = Fin 30"
    by code_simp
  have root: "tagName two_scene_cues_doc \<in> {''videoml'', ''video-ml'', ''vml''}"
    "truthyAttr two_scene_cues_doc ''id''"
    "optTimeValue (baseCtx (Fin 30)) (getAttr two_scene_cues_doc ''duration'') = Inr None"
    "optTimeValue (baseCtx (Fin 30)) (getAttr two_scene_cues_doc ''poster'') = Inr None"
    by (simp_all add: two_scene_cues_doc_def truthyAttr_def truthy_def getAttr_def optTimeValue_def)
  have scene: "snd (try_scene any_json (Fin 30) [?A, ?B] index st) = Inl e \<Longrightarrow> index < 2
      \<Longrightarrow> \<exists>c. e = DuplicateCueId c" for index st e
  proof -
    assume a: "snd (try_scene any_json (Fin 30) [?A, ?B] index st) = Inl e" and "index < 2"
    then consider "index = 0" | "index = 1" by linarith
    then show ?thesis
    proof cases
      case 1
      with a show ?thesis
        by (auto simp add: try_scene_def Let_def truthyAttr_def truthy_def getAttr_def
            parseTiming_def parseCue_def parseTimeRange_def json_throws_def split: if_splits)
    next
      case 2
      with a show ?thesis
        by (auto simp add: try_scene_def Let_def truthyAttr_def truthy_def getAttr_def
            parseTiming_def parseCue_def parseTimeRange_def json_throws_def split: if_splits)
    qed
  qed
  have only: "\<forall>index < length (filter (\<lambda>c. tagName c = ''scene'') (children two_scene_cues_doc)).
      \<forall>st e. snd (try_scene any_json (number_or (Fin 30) two_scene_cues_doc ''fps'')
                (filter (\<lambda>c. tagName c = ''scene'') (children two_scene_cues_doc)) index st) = Inl e
         \<longrightarrow> (\<exists>c. e = DuplicateCueId c)"
    unfolding els fps using scene by simp
  from duplicate_scene_cue_rejected [of two_scene_cues_doc any_json] d only root ids
  show ?thesis
    unfolding Let_def fps by auto
qed

theorem layered_cue_kept_counterexample:
  "descendant_cue_ids layered_cue_doc = [''c'', ''c'']
   \<and> map_sum id (map (map (\<lambda>it. case it of CueItem c \<Rightarrow> parsed_id c | PauseItem p \<Rightarrow> [])
                      \<circ> data_items) \<circ> composition_scenes)
        (loadVideoFileFromXml any_json layered_cue_doc)
       = Inr [[''c''], []]"
  by code_simp

text \<open>
  When the second of two cues with the same id does not parse, its error is the result.
\<close>

lemma duplicate_cue_other_error:
  "scene_cue_ids untimed_duplicate_doc = [''c'', ''c'']
   \<and> loadVideoFileFromXml any_json untimed_duplicate_doc = Inl (TimingRequiresStart ''c'')"
  by code_simp

text \<open>
  A scene inside a scene is skipped with its cues: the id repeated there is accepted too.
\<close>

lemma nested_scene_cue_kept:
  "descendant_cue_ids nested_scene_cue_doc = [''c'', ''c'']
   \<and> scene_cue_ids nested_scene_cue_doc = [''c'']
   \<and> map_sum id (map (map (\<lambda>it. case it of CueItem c \<Rightarrow> parsed_id c | PauseItem p \<Rightarrow> [])
                      \<circ> data_items) \<circ> composition_scenes)
        (loadVideoFileFromXml any_json nested_scene_cue_doc)
       = Inr [[''c'']]"
  by code_simp

end
